theory Spec2Isabelle
  imports Complex_Main "HOL-Library.Log_Nat"
begin

section \<open>The connection lifecycle controller (dashboard/src/app/page.tsx)\<close>

text \<open>
  The component \<open>Home\<close> holds three pieces of React state (\<open>status\<close>, \<open>startTime\<close>,
  \<open>isMuted\<close>) and one ref (\<open>clientRef\<close>). Every invocation of \<open>startCall\<close> creates a
  closure of its own: a client with its event handlers, the latch \<open>connectionHandled\<close>,
  and, once \<open>connect\<close> has returned, the counter \<open>pollAttempts\<close> and the interval
  \<open>connectionPoll\<close>. JavaScript runs each callback to completion, so a callback is one
  atomic step of the model; an \<open>await\<close> splits \<open>startCall\<close> and \<open>endCall\<close> into the
  part before it and the part that resumes when the promise settles, and other callbacks
  may run in between. React is taken to commit the state updates of a callback before the
  next callback runs.

  \<open>Date.now()\<close> is an integer number of milliseconds; the callbacks that read it receive
  the value with the event. \<open>client.connected\<close> belongs to the external transport; the
  poll callback reads it twice (lines 117 and 132), and the event supplies both reads.
\<close>

datatype status = Idle | Connecting | Active | Error

text \<open>Where the asynchronous body of one \<open>startCall\<close> invocation stands.\<close>

datatype phase =
    AwaitTeardown  \<comment> \<open>suspended at \<open>await clientRef.current.disconnect()\<close>, line 26\<close>
  | AwaitConnect   \<comment> \<open>suspended at \<open>await client.connect(...)\<close>, line 103\<close>
  | Settled        \<comment> \<open>ran to line 142, or left through the \<open>catch\<close>\<close>

record call =
  phase :: phase
  registered :: bool          \<comment> \<open>the client exists and its handlers are attached (lines 30-90)\<close>
  connectionHandled :: bool   \<comment> \<open>line 36\<close>
  pollAttempts :: nat         \<comment> \<open>line 112\<close>
  connectionPoll :: bool      \<comment> \<open>the interval of line 115 is set and not yet cleared\<close>

text \<open>
  What the callbacks do to the outside, in the order they do it: the React setters, the
  calls on a transport client (a client is named by the index of the \<open>startCall\<close>
  invocation that created it), the log line that every poll invocation prints (line 120),
  and the rejection of the promise of \<open>endCall\<close>.
\<close>

datatype effect =
    SetStatus status
  | SetStartTime "int option"
  | SetIsMuted bool
  | Disconnect nat
  | Connect nat
  | EnableMic nat bool
  | PollLog nat nat
  | EndCallRejected

record controller =
  status :: status
  startTime :: "int option"
  isMuted :: bool
  clientRef :: "nat option"
  calls :: "call list"
  endAwaiting :: nat          \<comment> \<open>\<open>endCall\<close> invocations suspended at line 151\<close>
  trace :: "effect list"

definition init :: controller where
  "init = \<lparr>status = Idle, startTime = None, isMuted = False, clientRef = None,
           calls = [], endAwaiting = 0, trace = []\<rparr>"

definition emit :: "effect \<Rightarrow> controller \<Rightarrow> controller" where
  "emit e c = c\<lparr>trace := trace c @ [e]\<rparr>"

definition setStatus :: "status \<Rightarrow> controller \<Rightarrow> controller" where
  "setStatus s c = emit (SetStatus s) (c\<lparr>status := s\<rparr>)"

definition setStartTime :: "int option \<Rightarrow> controller \<Rightarrow> controller" where
  "setStartTime t c = emit (SetStartTime t) (c\<lparr>startTime := t\<rparr>)"

definition setIsMuted :: "bool \<Rightarrow> controller \<Rightarrow> controller" where
  "setIsMuted b c = emit (SetIsMuted b) (c\<lparr>isMuted := b\<rparr>)"

definition upd_call :: "nat \<Rightarrow> (call \<Rightarrow> call) \<Rightarrow> controller \<Rightarrow> controller" where
  "upd_call i f c = c\<lparr>calls := (calls c)[i := f (calls c ! i)]\<rparr>"

definition maxPollAttempts :: nat where
  "maxPollAttempts = 10"

subsection \<open>startCall\<close>

text \<open>
  Lines 20-34 and 97-107, up to the first \<open>await\<close>. With a client in \<open>clientRef\<close> the body
  suspends at line 26 before the new client exists; without one it runs on to line 103.
\<close>

definition new_client :: call where
  "new_client = \<lparr>phase = AwaitConnect, registered = True, connectionHandled = False,
                 pollAttempts = 0, connectionPoll = False\<rparr>"

definition startCall :: "controller \<Rightarrow> controller" where
  "startCall c =
     (let i = length (calls c); c1 = setStatus Connecting c in
      case clientRef c1 of
        Some k \<Rightarrow>
          (emit (Disconnect k) c1)
            \<lparr>calls := calls c1 @ [new_client\<lparr>phase := AwaitTeardown, registered := False\<rparr>]\<rparr>
      | None \<Rightarrow>
          emit (Connect i) (c1\<lparr>calls := calls c1 @ [new_client]\<rparr>))"

text \<open>Line 26 resolved: lines 30-107, up to the second \<open>await\<close>.\<close>

definition startCall_teardown_done :: "nat \<Rightarrow> controller \<Rightarrow> controller" where
  "startCall_teardown_done i c =
     (if i < length (calls c) \<and> phase (calls c ! i) = AwaitTeardown
      then emit (Connect i) (upd_call i (\<lambda>_. new_client) c)
      else c)"

text \<open>Line 103 resolved: lines 109-142.\<close>

definition startCall_connect_done :: "nat \<Rightarrow> controller \<Rightarrow> controller" where
  "startCall_connect_done i c =
     (if i < length (calls c) \<and> phase (calls c ! i) = AwaitConnect
      then (upd_call i (\<lambda>k. k\<lparr>phase := Settled, pollAttempts := 0, connectionPoll := True\<rparr>) c)
             \<lparr>clientRef := Some i\<rparr>
      else c)"

text \<open>Either awaited promise rejected: the \<open>catch\<close> of lines 143-146.\<close>

definition startCall_catch :: "phase \<Rightarrow> nat \<Rightarrow> controller \<Rightarrow> controller" where
  "startCall_catch p i c =
     (if i < length (calls c) \<and> phase (calls c ! i) = p
      then setStatus Error (upd_call i (\<lambda>k. k\<lparr>phase := Settled\<rparr>) c)
      else c)"

subsection \<open>The handlers of one client\<close>

text \<open>A handler runs only on a client that exists and has it attached.\<close>

definition on_client :: "nat \<Rightarrow> (controller \<Rightarrow> controller) \<Rightarrow> controller \<Rightarrow> controller" where
  "on_client i h c = (if i < length (calls c) \<and> registered (calls c ! i) then h c else c)"

text \<open>Lines 40-50.\<close>

definition onTransportStateChanged :: "nat \<Rightarrow> string \<Rightarrow> int \<Rightarrow> controller \<Rightarrow> controller" where
  "onTransportStateChanged i state now c =
     (if (state = ''connected'' \<or> state = ''ready'') \<and> \<not> connectionHandled (calls c ! i)
      then setStartTime (Some now)
             (setStatus Active (upd_call i (\<lambda>k. k\<lparr>connectionHandled := True\<rparr>) c))
      else c)"

text \<open>Lines 52-59.\<close>

definition onConnected :: "nat \<Rightarrow> int \<Rightarrow> controller \<Rightarrow> controller" where
  "onConnected i now c =
     (if \<not> connectionHandled (calls c ! i)
      then setStartTime (Some now)
             (setStatus Active (upd_call i (\<lambda>k. k\<lparr>connectionHandled := True\<rparr>) c))
      else c)"

text \<open>Lines 61-66.\<close>

definition onDisconnected :: "nat \<Rightarrow> controller \<Rightarrow> controller" where
  "onDisconnected i c =
     setStartTime None (setStatus Idle (upd_call i (\<lambda>k. k\<lparr>connectionHandled := False\<rparr>) c))"

text \<open>Lines 68-71.\<close>

definition onError :: "nat \<Rightarrow> controller \<Rightarrow> controller" where
  "onError i c = setStatus Error c"

subsection \<open>The fallback poll\<close>

text \<open>
  Lines 115-139, one invocation of the interval callback. \<open>isConnected\<close> is the read of
  line 117, \<open>finalCheck\<close> the read of line 132. A cleared interval does not call back.
\<close>

definition poll_body :: "nat \<Rightarrow> bool \<Rightarrow> bool \<Rightarrow> int \<Rightarrow> controller \<Rightarrow> controller" where
  "poll_body i isConnected finalCheck now c =
     (let c1 = upd_call i (\<lambda>k. k\<lparr>pollAttempts := pollAttempts k + 1\<rparr>) c;
          c2 = emit (PollLog i (pollAttempts (calls c1 ! i))) c1
      in if isConnected \<and> \<not> connectionHandled (calls c2 ! i) then
           setStartTime (Some now)
             (setStatus Active
               (upd_call i (\<lambda>k. k\<lparr>connectionPoll := False, connectionHandled := True\<rparr>) c2))
         else if pollAttempts (calls c2 ! i) \<ge> maxPollAttempts then
           (let c3 = upd_call i (\<lambda>k. k\<lparr>connectionPoll := False\<rparr>) c2
            in if finalCheck then
                 setStartTime (Some now)
                   (setStatus Active (upd_call i (\<lambda>k. k\<lparr>connectionHandled := True\<rparr>) c3))
               else c3)
         else c2)"

definition connectionPoll_tick :: "nat \<Rightarrow> bool \<Rightarrow> bool \<Rightarrow> int \<Rightarrow> controller \<Rightarrow> controller" where
  "connectionPoll_tick i isConnected finalCheck now c =
     (if i < length (calls c) \<and> connectionPoll (calls c ! i)
      then poll_body i isConnected finalCheck now c
      else c)"

subsection \<open>endCall and toggleMute\<close>

text \<open>
  Lines 149-156. With a client in \<open>clientRef\<close> the body suspends at line 151; there is no
  \<open>try\<close> around the \<open>await\<close>, so a rejected \<open>disconnect\<close> rejects \<open>endCall\<close> and lines
  152-155 do not run.
\<close>

definition endCall_finish :: "controller \<Rightarrow> controller" where
  "endCall_finish c = setStartTime None (setStatus Idle c)"

definition endCall :: "controller \<Rightarrow> controller" where
  "endCall c =
     (case clientRef c of
        Some k \<Rightarrow> (emit (Disconnect k) c)\<lparr>endAwaiting := endAwaiting c + 1\<rparr>
      | None \<Rightarrow> endCall_finish c)"

definition endCall_teardown_done :: "controller \<Rightarrow> controller" where
  "endCall_teardown_done c =
     (if 0 < endAwaiting c
      then endCall_finish (c\<lparr>endAwaiting := endAwaiting c - 1, clientRef := None\<rparr>)
      else c)"

definition endCall_teardown_failed :: "controller \<Rightarrow> controller" where
  "endCall_teardown_failed c =
     (if 0 < endAwaiting c
      then emit EndCallRejected (c\<lparr>endAwaiting := endAwaiting c - 1\<rparr>)
      else c)"

text \<open>Lines 158-164.\<close>

definition toggleMute :: "controller \<Rightarrow> controller" where
  "toggleMute c =
     (case clientRef c of
        Some k \<Rightarrow>
          (let newMute = \<not> isMuted c
           in setIsMuted newMute (emit (EnableMic k (\<not> newMute)) c))
      | None \<Rightarrow> c)"

subsection \<open>Events and runs\<close>

datatype event =
    StartCall
  | TeardownResolved nat
  | TeardownRejected nat
  | ConnectResolved nat
  | ConnectRejected nat
  | TransportStateChanged nat string int
  | ConnectedEv nat int
  | DisconnectedEv nat
  | ErrorEv nat
  | PollTick nat bool bool int
  | EndCall
  | EndTeardownResolved
  | EndTeardownRejected
  | ToggleMute

fun step :: "event \<Rightarrow> controller \<Rightarrow> controller" where
  "step StartCall c = startCall c"
| "step (TeardownResolved i) c = startCall_teardown_done i c"
| "step (TeardownRejected i) c = startCall_catch AwaitTeardown i c"
| "step (ConnectResolved i) c = startCall_connect_done i c"
| "step (ConnectRejected i) c = startCall_catch AwaitConnect i c"
| "step (TransportStateChanged i s now) c = on_client i (onTransportStateChanged i s now) c"
| "step (ConnectedEv i now) c = on_client i (onConnected i now) c"
| "step (DisconnectedEv i) c = on_client i (onDisconnected i) c"
| "step (ErrorEv i) c = on_client i (onError i) c"
| "step (PollTick i a b now) c = connectionPoll_tick i a b now c"
| "step EndCall c = endCall c"
| "step EndTeardownResolved c = endCall_teardown_done c"
| "step EndTeardownRejected c = endCall_teardown_failed c"
| "step ToggleMute c = toggleMute c"

fun run :: "controller \<Rightarrow> event list \<Rightarrow> controller" where
  "run c [] = c"
| "run c (e # es) = run (step e c) es"

text \<open>
  What the rendered buttons let the user do (lines 246-260): the mute button exists only
  while \<open>status\<close> is \<open>active\<close>; the call button ends the call while \<open>active\<close>, starts one
  otherwise, and is disabled while \<open>connecting\<close>. Events of the transport are not
  constrained.
\<close>

fun clickable :: "controller \<Rightarrow> event \<Rightarrow> bool" where
  "clickable c StartCall = (status c \<noteq> Active \<and> status c \<noteq> Connecting)"
| "clickable c EndCall = (status c = Active)"
| "clickable c ToggleMute = (status c = Active)"
| "clickable c _ = True"

fun feasible :: "controller \<Rightarrow> event list \<Rightarrow> bool" where
  "feasible c [] = True"
| "feasible c (e # es) = (clickable c e \<and> feasible (step e c) es)"

section \<open>The session clock (component CostTracker)\<close>

text \<open>
  The component keeps \<open>cost\<close> and \<open>duration\<close> as React state and the id of its interval
  in \<open>timerRef\<close>. Its effect (lines 30-45) depends on \<open>[isActive, startTime]\<close>: React runs
  it on mount, runs the cleanup and then the effect again when a render changes one of the
  two props, and runs the cleanup on unmount. An interval callback keeps the \<open>startTime\<close>
  of the render that created it. \<open>setInterval\<close> returns a fresh id, which is never 0, so a
  stored id is truthy; \<open>clearInterval\<close> of an id that is no longer set does nothing.
\<close>

subsection \<open>JavaScript numbers\<close>

text \<open>
  A JavaScript number is an IEEE 754 double: a real number of the form \<open>m * 2 ^ k\<close> with
  \<open>\<bar>m\<bar> < 2 ^ 53\<close> and \<open>k \<ge> -1074\<close>. Every arithmetic operation returns the exact result
  rounded to the nearest double, ties to the even mantissa. \<open>rne\<close> rounds to the nearest
  integer, ties to even; \<open>expo a\<close> is the binary exponent of \<open>a > 0\<close> (the \<open>e\<close> with
  \<open>2 ^ e \<le> a < 2 ^ (e + 1)\<close>); \<open>ulp_exp a\<close> is the exponent of the spacing of the doubles
  around \<open>a\<close>, with the subnormal range below \<open>2 ^ -1022\<close>. Results of magnitude \<open>2 ^ 1024\<close>
  and above, which JavaScript rounds to \<open>Infinity\<close>, do not arise here: time values are
  integers of magnitude at most 8.64e15.
\<close>

definition rne :: "real \<Rightarrow> int" where
  "rne x =
     (let f = \<lfloor>x\<rfloor>; r = x - of_int f
      in if r < 1 / 2 then f else if 1 / 2 < r then f + 1 else if even f then f else f + 1)"

definition expo :: "real \<Rightarrow> int" where
  "expo a = (if 1 \<le> a then bitlen \<lfloor>a\<rfloor> - 1 else - bitlen (\<lceil>1 / a\<rceil> - 1))"

definition ulp_exp :: "real \<Rightarrow> int" where
  "ulp_exp a = max (expo a) (- 1022) - 52"

definition to_double :: "real \<Rightarrow> real" where
  "to_double x =
     (if x = 0 then 0
      else sgn x * (of_int (rne (\<bar>x\<bar> / 2 powi ulp_exp \<bar>x\<bar>)) * 2 powi ulp_exp \<bar>x\<bar>))"

subsection \<open>The component\<close>

type_synonym props = "bool \<times> int option"

record tracker =
  cost :: real
  duration :: real
  timerRef :: "nat option"
  timers :: "(nat \<times> int) list"   \<comment> \<open>the intervals that are set: id and captured \<open>startTime\<close>\<close>
  nextTimer :: nat
  props :: props
  mounted :: bool
  emitted :: "(real \<times> real) list"  \<comment> \<open>the samples stored by lines 35-36, oldest first\<close>

text \<open>Line 28: the literal \<open>0.0005\<close> denotes the double nearest to 5/10000.\<close>

definition COST_PER_SECOND :: real where
  "COST_PER_SECOND = to_double (5 / 10000)"

definition setInterval :: "int \<Rightarrow> tracker \<Rightarrow> tracker" where
  "setInterval s t =
     t\<lparr>timers := (nextTimer t, s) # timers t, timerRef := Some (nextTimer t),
       nextTimer := nextTimer t + 1\<rparr>"

definition clearInterval :: "nat \<Rightarrow> tracker \<Rightarrow> tracker" where
  "clearInterval n t = t\<lparr>timers := filter (\<lambda>x. fst x \<noteq> n) (timers t)\<rparr>"

text \<open>Lines 39 and 43: \<open>if (timerRef.current) clearInterval(timerRef.current)\<close>.\<close>

definition clear_current :: "tracker \<Rightarrow> tracker" where
  "clear_current t = (case timerRef t of Some n \<Rightarrow> clearInterval n t | None \<Rightarrow> t)"

text \<open>
  Lines 31-40. \<open>isActive && startTime\<close> is false for \<open>null\<close> and also for the number 0.
\<close>

fun ticking :: "props \<Rightarrow> bool" where
  "ticking (isActive, Some s) = (isActive \<and> s \<noteq> 0)"
| "ticking (isActive, None) = False"

fun effect_body :: "props \<Rightarrow> tracker \<Rightarrow> tracker" where
  "effect_body (isActive, Some s) t =
     (if isActive \<and> s \<noteq> 0 then setInterval s t else clear_current t)"
| "effect_body (isActive, None) t = clear_current t"

text \<open>
  Lines 33-36, the callback of an interval created with \<open>startTime = s\<close>: the subtraction,
  the division and the product each round to a double.
\<close>

definition tick_body :: "int \<Rightarrow> int \<Rightarrow> tracker \<Rightarrow> tracker" where
  "tick_body s now t =
     (let diff = to_double (to_double (real_of_int (now - s)) / 1000)
      in t\<lparr>duration := diff, cost := to_double (diff * COST_PER_SECOND),
           emitted := emitted t @ [(diff, to_double (diff * COST_PER_SECOND))]\<rparr>)"

definition mount :: "props \<Rightarrow> tracker" where
  "mount p =
     effect_body p
       \<lparr>cost = 0, duration = 0, timerRef = None, timers = [], nextTimer = 1,
        props = p, mounted = True, emitted = []\<rparr>"

datatype tevent = Render props | Tick nat int | Unmount

fun tstep :: "tevent \<Rightarrow> tracker \<Rightarrow> tracker" where
  "tstep (Render p) t =
     (if mounted t \<and> p \<noteq> props t then effect_body p ((clear_current t)\<lparr>props := p\<rparr>) else t)"
| "tstep (Tick n now) t =
     (case map_of (timers t) n of Some s \<Rightarrow> tick_body s now t | None \<Rightarrow> t)"
| "tstep Unmount t = (if mounted t then (clear_current t)\<lparr>mounted := False\<rparr> else t)"

fun trun :: "tracker \<Rightarrow> tevent list \<Rightarrow> tracker" where
  "trun t [] = t"
| "trun t (e # es) = trun (tstep e t) es"

fun tick_time :: "tevent \<Rightarrow> int" where
  "tick_time (Tick n now) = now"
| "tick_time _ = 0"

fun is_tick :: "tevent \<Rightarrow> bool" where
  "is_tick (Tick n now) = True"
| "is_tick _ = False"

section \<open>Properties\<close>

text \<open>The calls of \<open>setStartTime\<close> with a timestamp, as they appear in a trace.\<close>

fun is_capture :: "effect \<Rightarrow> bool" where
  "is_capture (SetStartTime (Some t)) = True"
| "is_capture _ = False"

text \<open>What relates \<open>status\<close> and \<open>startTime\<close> in every state the controller reaches.\<close>

definition clock_ok :: "controller \<Rightarrow> bool" where
  "clock_ok c =
     ((status c = Active \<longrightarrow> startTime c \<noteq> None) \<and> (status c = Idle \<longrightarrow> startTime c = None))"

text \<open>The invocations of the poll callback of call \<open>i\<close>: one log line each (line 120).\<close>

fun is_poll_log :: "nat \<Rightarrow> effect \<Rightarrow> bool" where
  "is_poll_log i (PollLog j n) = (j = i)"
| "is_poll_log i _ = False"

definition poll_invocations :: "nat \<Rightarrow> controller \<Rightarrow> nat" where
  "poll_invocations i c = length (filter (is_poll_log i) (trace c))"

definition poll_ok_at :: "nat \<Rightarrow> controller \<Rightarrow> bool" where
  "poll_ok_at i c =
     (if i < length (calls c) then
        poll_invocations i c = pollAttempts (calls c ! i) \<and>
        pollAttempts (calls c ! i) \<le> maxPollAttempts \<and>
        (connectionPoll (calls c ! i) \<longrightarrow> pollAttempts (calls c ! i) < maxPollAttempts) \<and>
        (phase (calls c ! i) \<noteq> Settled \<longrightarrow>
           pollAttempts (calls c ! i) = 0 \<and> \<not> connectionPoll (calls c ! i))
      else poll_invocations i c = 0)"


text \<open>
  \<open>connect\<close> has been called on client \<open>i\<close> among the effects after the first \<open>n\<close>; and the
  three situations of the \<open>startCall\<close> invocation \<open>i\<close> that the proofs follow: its new
  \<open>connect\<close> is not under way, it is suspended in the teardown of the old client, it has
  ended without a \<open>connect\<close>.
\<close>

definition connect_issued :: "nat \<Rightarrow> nat \<Rightarrow> controller \<Rightarrow> bool" where
  "connect_issued i n c = (Connect i \<in> set (drop n (trace c)))"

definition before_connect :: "nat \<Rightarrow> nat \<Rightarrow> controller \<Rightarrow> bool" where
  "before_connect i n c =
     (i < length (calls c) \<and> phase (calls c ! i) \<noteq> AwaitConnect \<and>
      n \<le> length (trace c) \<and> \<not> connect_issued i n c)"

definition teardown_pending :: "nat \<Rightarrow> controller \<Rightarrow> bool" where
  "teardown_pending i c = (i < length (calls c) \<and> phase (calls c ! i) = AwaitTeardown)"

definition gave_up :: "nat \<Rightarrow> nat \<Rightarrow> controller \<Rightarrow> bool" where
  "gave_up i n c =
     (i < length (calls c) \<and> phase (calls c ! i) = Settled \<and>
      n \<le> length (trace c) \<and> \<not> connect_issued i n c)"

text \<open>
  The clock has at most one interval set, the one in \<open>timerRef\<close>, created for the
  \<open>startTime\<close> of the current props; every stored sample has its cost computed from its
  duration.
\<close>

definition timers_ok :: "tracker \<Rightarrow> bool" where
  "timers_ok t =
     (timers t = [] \<or>
      (mounted t \<and> ticking (props t) \<and>
       map (\<lambda>x. Some (fst x)) (timers t) = [timerRef t] \<and>
       map (\<lambda>x. Some (snd x)) (timers t) = [snd (props t)]))"

definition samples_ok :: "tracker \<Rightarrow> bool" where
  "samples_ok t =
     (cost t = to_double (duration t * COST_PER_SECOND) \<and>
      list_all (\<lambda>x. snd x = to_double (fst x * COST_PER_SECOND)) (emitted t))"

text \<open>A timer event, or a render that passes the props \<open>p\<close> again.\<close>

fun keeps_props :: "props \<Rightarrow> tevent \<Rightarrow> bool" where
  "keeps_props p (Tick n now) = True"
| "keeps_props p (Render q) = (q = p)"
| "keeps_props p Unmount = False"

fun fires :: "nat \<Rightarrow> tevent \<Rightarrow> bool" where
  "fires n (Tick m now) = (m = n)"
| "fires n _ = False"

definition elapsed :: "int \<Rightarrow> int \<Rightarrow> real" where
  "elapsed s now = to_double (to_double (real_of_int (now - s)) / 1000)"

text \<open>The rounding of a positive number, and the timer events of one call's poll.\<close>

definition pos_double :: "real \<Rightarrow> real" where
  "pos_double a = of_int (rne (a / 2 powi ulp_exp a)) * 2 powi ulp_exp a"

fun is_poll_of :: "nat \<Rightarrow> event \<Rightarrow> bool" where
  "is_poll_of i (PollTick j a b now) = (j = i)"
| "is_poll_of i _ = False"

section \<open>Proofs about the controller\<close>

lemmas setter_defs = emit_def setStatus_def setStartTime_def setIsMuted_def upd_call_def

lemmas handler_defs =
  startCall_def startCall_teardown_done_def startCall_connect_done_def startCall_catch_def
  on_client_def onTransportStateChanged_def onConnected_def onDisconnected_def onError_def
  poll_body_def connectionPoll_tick_def endCall_finish_def endCall_def
  endCall_teardown_done_def endCall_teardown_failed_def toggleMute_def new_client_def
  maxPollAttempts_def

subsection \<open>The latch and the final check of the poll\<close>

text \<open>
  C1. The claim: whatever activation signals arrive after a call start, the session becomes
  active once and \<open>startTime\<close> is captured once. The three guarded paths (lines 44, 54, 122)
  test the latch, the final check of the poll (line 132) does not: when the \<open>connected\<close>
  event has activated the session at 1000 ms and the transport stays connected, the tenth
  poll invocation, at 4000 ms, calls \<open>setStatus("active")\<close> and \<open>setStartTime\<close> a second
  time, and \<open>startTime\<close> moves from 1000 to 4000.
\<close>

theorem C1_final_check_captures_again:
  "filter is_capture (trace (run init
     [StartCall, ConnectedEv 0 1000, ConnectResolved 0,
      PollTick 0 True True 1300, PollTick 0 True True 1600, PollTick 0 True True 1900,
      PollTick 0 True True 2200, PollTick 0 True True 2500, PollTick 0 True True 2800,
      PollTick 0 True True 3100, PollTick 0 True True 3400, PollTick 0 True True 3700,
      PollTick 0 True True 4000])) =
     [SetStartTime (Some 1000), SetStartTime (Some 4000)] \<and>
   startTime (run init
     [StartCall, ConnectedEv 0 1000, ConnectResolved 0,
      PollTick 0 True True 1300, PollTick 0 True True 1600, PollTick 0 True True 1900,
      PollTick 0 True True 2200, PollTick 0 True True 2500, PollTick 0 True True 2800,
      PollTick 0 True True 3100, PollTick 0 True True 3400, PollTick 0 True True 3700,
      PollTick 0 True True 4000]) = Some 4000 \<and>
   feasible init
     [StartCall, ConnectedEv 0 1000, ConnectResolved 0,
      PollTick 0 True True 1300, PollTick 0 True True 1600, PollTick 0 True True 1900,
      PollTick 0 True True 2200, PollTick 0 True True 2500, PollTick 0 True True 2800,
      PollTick 0 True True 3100, PollTick 0 True True 3400, PollTick 0 True True 3700,
      PollTick 0 True True 4000]"
  by (simp add: init_def handler_defs setter_defs Let_def)

subsection \<open>status and startTime\<close>

lemma clock_ok_init: "clock_ok init"
  by (simp add: clock_ok_def init_def)

lemma clock_ok_step: "clock_ok c \<Longrightarrow> clock_ok (step e c)"
  by (cases e) (simp_all add: clock_ok_def handler_defs setter_defs Let_def split: option.splits)

lemma clock_ok_run: "clock_ok c \<Longrightarrow> clock_ok (run c evs)"
  by (induction evs arbitrary: c) (simp_all add: clock_ok_step)

text \<open>
  C2, the claim as stated: \<open>startTime\<close> is non-null exactly when \<open>status\<close> is \<open>active\<close>. The
  \<open>error\<close> handler (lines 68-71) sets \<open>status\<close> only, so after an error during an active
  call \<open>status\<close> is \<open>error\<close> and \<open>startTime\<close> still holds the timestamp.
\<close>

theorem C2_error_keeps_startTime:
  "\<not> ((startTime (run init [StartCall, ConnectedEv 0 1000, ErrorEv 0]) \<noteq> None) =
      (status (run init [StartCall, ConnectedEv 0 1000, ErrorEv 0]) = Active))"
  by (simp add: init_def handler_defs setter_defs Let_def)

text \<open>
  C2, amended: in every state the controller reaches, \<open>status = active\<close> implies that
  \<open>startTime\<close> is set and \<open>status = idle\<close> implies that it is null. The disconnect handler
  and the completion of \<open>endCall\<close> leave \<open>idle\<close> with \<open>startTime\<close> null; the error handler
  leaves \<open>error\<close> with \<open>startTime\<close> as it was.
\<close>

theorem C2_startTime_and_status:
  "(status (run init evs) = Active \<longrightarrow> startTime (run init evs) \<noteq> None) \<and>
   (status (run init evs) = Idle \<longrightarrow> startTime (run init evs) = None) \<and>
   status (onDisconnected i c) = Idle \<and> startTime (onDisconnected i c) = None \<and>
   status (endCall_finish c) = Idle \<and> startTime (endCall_finish c) = None \<and>
   status (onError i c) = Error \<and> startTime (onError i c) = startTime c"
proof -
  have "clock_ok (run init evs)"
    by (rule clock_ok_run [OF clock_ok_init])
  then show ?thesis
    by (simp add: clock_ok_def onDisconnected_def endCall_finish_def onError_def setter_defs)
qed

theorem C2_startTime_and_status_witness:
  "status (run init [StartCall, ConnectedEv 0 1000]) = Active \<and>
   startTime (run init [StartCall, ConnectedEv 0 1000]) \<noteq> None \<and>
   status (run init [StartCall, ConnectedEv 0 1000, DisconnectedEv 0]) = Idle \<and>
   startTime (run init [StartCall, ConnectedEv 0 1000, DisconnectedEv 0]) = None"
proof -
  have a: "status (run init [StartCall, ConnectedEv 0 1000]) = Active"
    by (simp add: init_def handler_defs setter_defs Let_def)
  have b: "status (run init [StartCall, ConnectedEv 0 1000, DisconnectedEv 0]) = Idle"
    by (simp add: init_def handler_defs setter_defs Let_def)
  from a C2_startTime_and_status [of "[StartCall, ConnectedEv 0 1000]"]
  have a': "startTime (run init [StartCall, ConnectedEv 0 1000]) \<noteq> None"
    by blast
  from b C2_startTime_and_status [of "[StartCall, ConnectedEv 0 1000, DisconnectedEv 0]"]
  have b': "startTime (run init [StartCall, ConnectedEv 0 1000, DisconnectedEv 0]) = None"
    by blast
  from a a' b b' show ?thesis by blast
qed

subsection \<open>The poll budget\<close>

lemma poll_ok_at_init: "poll_ok_at i init"
  by (simp add: poll_ok_at_def init_def poll_invocations_def)

lemma poll_ok_at_step: "poll_ok_at i c \<Longrightarrow> poll_ok_at i (step e c)"
proof (cases e)
  case StartCall
  assume "poll_ok_at i c"
  with StartCall show ?thesis
    by (auto simp add: poll_ok_at_def poll_invocations_def startCall_def new_client_def setter_defs
        Let_def nth_append split: option.splits if_splits)
next
  case (TeardownResolved j)
  assume "poll_ok_at i c"
  with TeardownResolved show ?thesis
    by (auto simp add: poll_ok_at_def poll_invocations_def startCall_teardown_done_def new_client_def
        setter_defs nth_list_update maxPollAttempts_def split: if_splits)
next
  case (TeardownRejected j)
  assume "poll_ok_at i c"
  with TeardownRejected show ?thesis
    by (auto simp add: poll_ok_at_def poll_invocations_def startCall_catch_def
        setter_defs nth_list_update split: if_splits)
next
  case (ConnectResolved j)
  assume "poll_ok_at i c"
  with ConnectResolved show ?thesis
    by (auto simp add: poll_ok_at_def poll_invocations_def startCall_connect_done_def
        setter_defs nth_list_update maxPollAttempts_def split: if_splits)
next
  case (ConnectRejected j)
  assume "poll_ok_at i c"
  with ConnectRejected show ?thesis
    by (auto simp add: poll_ok_at_def poll_invocations_def startCall_catch_def
        setter_defs nth_list_update split: if_splits)
next
  case (TransportStateChanged j s now)
  assume "poll_ok_at i c"
  with TransportStateChanged show ?thesis
    by (auto simp add: poll_ok_at_def poll_invocations_def on_client_def onTransportStateChanged_def
        setter_defs nth_list_update split: if_splits)
next
  case (ConnectedEv j now)
  assume "poll_ok_at i c"
  with ConnectedEv show ?thesis
    by (auto simp add: poll_ok_at_def poll_invocations_def on_client_def onConnected_def
        setter_defs nth_list_update split: if_splits)
next
  case (DisconnectedEv j)
  assume "poll_ok_at i c"
  with DisconnectedEv show ?thesis
    by (auto simp add: poll_ok_at_def poll_invocations_def on_client_def onDisconnected_def
        setter_defs nth_list_update split: if_splits)
next
  case (ErrorEv j)
  assume "poll_ok_at i c"
  with ErrorEv show ?thesis
    by (auto simp add: poll_ok_at_def poll_invocations_def on_client_def onError_def
        setter_defs split: if_splits)
next
  case (PollTick j a b now)
  assume "poll_ok_at i c"
  with PollTick show ?thesis
    by (auto simp add: poll_ok_at_def poll_invocations_def connectionPoll_tick_def poll_body_def
        setter_defs Let_def nth_list_update maxPollAttempts_def split: if_splits)
next
  case EndCall
  assume "poll_ok_at i c"
  with EndCall show ?thesis
    by (auto simp add: poll_ok_at_def poll_invocations_def endCall_def endCall_finish_def
        setter_defs split: option.splits if_splits)
next
  case EndTeardownResolved
  assume "poll_ok_at i c"
  with EndTeardownResolved show ?thesis
    by (auto simp add: poll_ok_at_def poll_invocations_def endCall_teardown_done_def endCall_finish_def
        setter_defs split: if_splits)
next
  case EndTeardownRejected
  assume "poll_ok_at i c"
  with EndTeardownRejected show ?thesis
    by (auto simp add: poll_ok_at_def poll_invocations_def endCall_teardown_failed_def
        setter_defs split: if_splits)
next
  case ToggleMute
  assume "poll_ok_at i c"
  with ToggleMute show ?thesis
    by (auto simp add: poll_ok_at_def poll_invocations_def toggleMute_def
        setter_defs Let_def split: option.splits if_splits)
qed


lemma poll_ok_at_run: "poll_ok_at i c \<Longrightarrow> poll_ok_at i (run c evs)"
  by (induction evs arbitrary: c) (simp_all add: poll_ok_at_step)

lemma poll_ok_at_reach: "poll_ok_at i (run init evs)"
  by (rule poll_ok_at_run [OF poll_ok_at_init])

text \<open>
  C10. Per call attempt the poll callback runs at most 10 times: while the interval of a
  call is still set it has run fewer than 10 times, and once it has run 10 times a further
  timer event for it changes nothing.
\<close>

theorem C10_poll_runs_at_most_ten_times:
  "poll_invocations i (run init evs) \<le> 10 \<and>
   (i < length (calls (run init evs)) \<and> connectionPoll (calls (run init evs) ! i) \<longrightarrow>
      poll_invocations i (run init evs) < 10) \<and>
   (poll_invocations i (run init evs) = 10 \<longrightarrow>
      step (PollTick i a b now) (run init evs) = run init evs)"
proof -
  have ok: "poll_ok_at i (run init evs)"
    by (rule poll_ok_at_reach)
  have 1: "poll_invocations i (run init evs) \<le> 10"
    using ok by (simp add: poll_ok_at_def maxPollAttempts_def split: if_splits)
  have 2: "i < length (calls (run init evs)) \<and> connectionPoll (calls (run init evs) ! i) \<longrightarrow>
      poll_invocations i (run init evs) < 10"
    using ok by (simp add: poll_ok_at_def maxPollAttempts_def split: if_splits)
  have 3: "poll_invocations i (run init evs) = 10 \<longrightarrow>
      step (PollTick i a b now) (run init evs) = run init evs"
    using 2 by (auto simp add: connectionPoll_tick_def)
  from 1 2 3 show ?thesis by blast
qed

theorem C10_poll_runs_at_most_ten_times_witness:
  "0 < length (calls (run init [StartCall, ConnectResolved 0, PollTick 0 False False 300])) \<and>
   connectionPoll (calls (run init [StartCall, ConnectResolved 0, PollTick 0 False False 300]) ! 0) \<and>
   poll_invocations 0 (run init [StartCall, ConnectResolved 0, PollTick 0 False False 300]) < 10 \<and>
   poll_invocations 0 (run init
     [StartCall, ConnectResolved 0,
      PollTick 0 False False 300, PollTick 0 False False 600, PollTick 0 False False 900,
      PollTick 0 False False 1200, PollTick 0 False False 1500, PollTick 0 False False 1800,
      PollTick 0 False False 2100, PollTick 0 False False 2400, PollTick 0 False False 2700,
      PollTick 0 False False 3000]) = 10 \<and>
   step (PollTick 0 True True 3300) (run init
     [StartCall, ConnectResolved 0,
      PollTick 0 False False 300, PollTick 0 False False 600, PollTick 0 False False 900,
      PollTick 0 False False 1200, PollTick 0 False False 1500, PollTick 0 False False 1800,
      PollTick 0 False False 2100, PollTick 0 False False 2400, PollTick 0 False False 2700,
      PollTick 0 False False 3000]) =
   run init
     [StartCall, ConnectResolved 0,
      PollTick 0 False False 300, PollTick 0 False False 600, PollTick 0 False False 900,
      PollTick 0 False False 1200, PollTick 0 False False 1500, PollTick 0 False False 1800,
      PollTick 0 False False 2100, PollTick 0 False False 2400, PollTick 0 False False 2700,
      PollTick 0 False False 3000]"
proof -
  have h1: "0 < length (calls (run init [StartCall, ConnectResolved 0, PollTick 0 False False 300])) \<and>
      connectionPoll (calls (run init [StartCall, ConnectResolved 0, PollTick 0 False False 300]) ! 0)"
    by (simp add: init_def handler_defs setter_defs Let_def)
  have h2: "poll_invocations 0 (run init
     [StartCall, ConnectResolved 0,
      PollTick 0 False False 300, PollTick 0 False False 600, PollTick 0 False False 900,
      PollTick 0 False False 1200, PollTick 0 False False 1500, PollTick 0 False False 1800,
      PollTick 0 False False 2100, PollTick 0 False False 2400, PollTick 0 False False 2700,
      PollTick 0 False False 3000]) = 10"
    by (simp add: poll_invocations_def init_def handler_defs setter_defs Let_def)
  from h1 C10_poll_runs_at_most_ten_times [of 0 "[StartCall, ConnectResolved 0, PollTick 0 False False 300]"]
  have c1: "poll_invocations 0 (run init [StartCall, ConnectResolved 0, PollTick 0 False False 300]) < 10"
    by blast
  from h2 C10_poll_runs_at_most_ten_times [of 0 "[StartCall, ConnectResolved 0,
      PollTick 0 False False 300, PollTick 0 False False 600, PollTick 0 False False 900,
      PollTick 0 False False 1200, PollTick 0 False False 1500, PollTick 0 False False 1800,
      PollTick 0 False False 2100, PollTick 0 False False 2400, PollTick 0 False False 2700,
      PollTick 0 False False 3000]" True True 3300]
  have c2: "step (PollTick 0 True True 3300) (run init
     [StartCall, ConnectResolved 0,
      PollTick 0 False False 300, PollTick 0 False False 600, PollTick 0 False False 900,
      PollTick 0 False False 1200, PollTick 0 False False 1500, PollTick 0 False False 1800,
      PollTick 0 False False 2100, PollTick 0 False False 2400, PollTick 0 False False 2700,
      PollTick 0 False False 3000]) =
   run init
     [StartCall, ConnectResolved 0,
      PollTick 0 False False 300, PollTick 0 False False 600, PollTick 0 False False 900,
      PollTick 0 False False 1200, PollTick 0 False False 1500, PollTick 0 False False 1800,
      PollTick 0 False False 2100, PollTick 0 False False 2400, PollTick 0 False False 2700,
      PollTick 0 False False 3000]"
    by blast
  from h1 h2 c1 c2 show ?thesis by blast
qed

subsection \<open>Negative polls\<close>





subsection \<open>toggleMute\<close>

text \<open>
  C7, the claim as stated: \<open>toggleMute\<close> while \<open>status\<close> is \<open>active\<close> flips \<open>isMuted\<close> and
  calls \<open>enableMic\<close>. The function tests \<open>clientRef.current\<close>, not \<open>status\<close>, and the ref is
  assigned only after \<open>connect\<close> has returned (line 141): when the \<open>connected\<close> event has
  already made the session active, the mute button is shown and a click changes nothing.
\<close>

theorem C7_mute_ignored_before_connect_returns:
  "status (run init [StartCall, ConnectedEv 0 1000]) = Active \<and>
   isMuted (toggleMute (run init [StartCall, ConnectedEv 0 1000])) =
     isMuted (run init [StartCall, ConnectedEv 0 1000]) \<and>
   trace (toggleMute (run init [StartCall, ConnectedEv 0 1000])) =
     trace (run init [StartCall, ConnectedEv 0 1000]) \<and>
   feasible init [StartCall, ConnectedEv 0 1000, ToggleMute]"
  by (simp add: init_def handler_defs setter_defs Let_def)

text \<open>
  C7, amended: with a client in \<open>clientRef\<close>, \<open>toggleMute\<close> flips \<open>isMuted\<close> and calls
  \<open>enableMic\<close> on that client with the negation of the new \<open>isMuted\<close>; with no client in
  \<open>clientRef\<close> it changes nothing and calls nothing.
\<close>

theorem C7_toggleMute:
  "(clientRef c = Some k \<longrightarrow>
      isMuted (toggleMute c) = (\<not> isMuted c) \<and>
      trace (toggleMute c) =
        trace c @ [EnableMic k (\<not> isMuted (toggleMute c)), SetIsMuted (isMuted (toggleMute c))]) \<and>
   (clientRef c = None \<longrightarrow> toggleMute c = c)"
  by (simp add: toggleMute_def setter_defs Let_def)

theorem C7_toggleMute_witness:
  "clientRef (run init [StartCall, ConnectedEv 0 1000, ConnectResolved 0]) = Some 0 \<and>
   isMuted (toggleMute (run init [StartCall, ConnectedEv 0 1000, ConnectResolved 0])) \<and>
   trace (toggleMute (run init [StartCall, ConnectedEv 0 1000, ConnectResolved 0])) =
     trace (run init [StartCall, ConnectedEv 0 1000, ConnectResolved 0]) @
       [EnableMic 0 False, SetIsMuted True] \<and>
   clientRef init = None \<and> toggleMute init = init"
proof -
  have h1: "clientRef (run init [StartCall, ConnectedEv 0 1000, ConnectResolved 0]) = Some 0"
    by (simp add: init_def handler_defs setter_defs Let_def)
  have h2: "\<not> isMuted (run init [StartCall, ConnectedEv 0 1000, ConnectResolved 0])"
    by (simp add: init_def handler_defs setter_defs Let_def)
  have h3: "clientRef init = None"
    by (simp add: init_def)
  from C7_toggleMute [of "run init [StartCall, ConnectedEv 0 1000, ConnectResolved 0]" 0] h1 h2
  have c1: "isMuted (toggleMute (run init [StartCall, ConnectedEv 0 1000, ConnectResolved 0])) \<and>
   trace (toggleMute (run init [StartCall, ConnectedEv 0 1000, ConnectResolved 0])) =
     trace (run init [StartCall, ConnectedEv 0 1000, ConnectResolved 0]) @
       [EnableMic 0 False, SetIsMuted True]"
    by simp
  from C7_toggleMute [of init 0] h3 have c2: "toggleMute init = init"
    by blast
  from h1 h3 c1 c2 show ?thesis by blast
qed

subsection \<open>endCall\<close>

text \<open>
  C4, the claim as stated: after any end-call request the controller is idle with
  \<open>startTime\<close> cleared and nothing is thrown, also when the teardown fails. \<open>endCall\<close> has
  no \<open>try\<close>: when \<open>disconnect\<close> rejects, the promise of \<open>endCall\<close> rejects and lines 152-155
  do not run.
\<close>

theorem C4_failed_teardown_blocks_endCall:
  "status (run init
     [StartCall, ConnectedEv 0 1000, ConnectResolved 0, EndCall, EndTeardownRejected]) = Active \<and>
   startTime (run init
     [StartCall, ConnectedEv 0 1000, ConnectResolved 0, EndCall, EndTeardownRejected]) = Some 1000 \<and>
   last (trace (run init
     [StartCall, ConnectedEv 0 1000, ConnectResolved 0, EndCall, EndTeardownRejected])) = EndCallRejected \<and>
   feasible init
     [StartCall, ConnectedEv 0 1000, ConnectResolved 0, EndCall, EndTeardownRejected]"
  by (simp add: init_def handler_defs setter_defs Let_def)

text \<open>
  C4, amended: with no client in \<open>clientRef\<close>, \<open>endCall\<close> sets \<open>status\<close> to \<open>idle\<close> and
  \<open>startTime\<close> to null at once, calls nothing on a transport and does not reject. With a
  client it calls \<open>disconnect\<close> on it; when that resolves, \<open>clientRef\<close> is emptied, \<open>status\<close>
  is \<open>idle\<close> and \<open>startTime\<close> null; when it rejects, \<open>endCall\<close> rejects and \<open>status\<close>,
  \<open>startTime\<close> and \<open>clientRef\<close> stay as they were.
\<close>

theorem C4_endCall:
  "(clientRef c = None \<longrightarrow>
      status (endCall c) = Idle \<and> startTime (endCall c) = None \<and>
      trace (endCall c) = trace c @ [SetStatus Idle, SetStartTime None]) \<and>
   (clientRef c = Some k \<longrightarrow>
      trace (endCall c) = trace c @ [Disconnect k] \<and> 0 < endAwaiting (endCall c)) \<and>
   (0 < endAwaiting c \<longrightarrow>
      status (step EndTeardownResolved c) = Idle \<and>
      startTime (step EndTeardownResolved c) = None \<and>
      clientRef (step EndTeardownResolved c) = None \<and>
      trace (step EndTeardownResolved c) = trace c @ [SetStatus Idle, SetStartTime None]) \<and>
   (0 < endAwaiting c \<longrightarrow>
      status (step EndTeardownRejected c) = status c \<and>
      startTime (step EndTeardownRejected c) = startTime c \<and>
      clientRef (step EndTeardownRejected c) = clientRef c \<and>
      trace (step EndTeardownRejected c) = trace c @ [EndCallRejected])"
  by (simp add: endCall_def endCall_finish_def endCall_teardown_done_def
      endCall_teardown_failed_def setter_defs)

theorem C4_endCall_witness:
  "clientRef init = None \<and> status (endCall init) = Idle \<and> startTime (endCall init) = None \<and>
   trace (endCall init) = [SetStatus Idle, SetStartTime None] \<and>
   clientRef (run init [StartCall, ConnectedEv 0 1000, ConnectResolved 0]) = Some 0 \<and>
   0 < endAwaiting (endCall (run init [StartCall, ConnectedEv 0 1000, ConnectResolved 0])) \<and>
   status (step EndTeardownResolved
     (endCall (run init [StartCall, ConnectedEv 0 1000, ConnectResolved 0]))) = Idle \<and>
   startTime (step EndTeardownResolved
     (endCall (run init [StartCall, ConnectedEv 0 1000, ConnectResolved 0]))) = None \<and>
   status (step EndTeardownRejected
     (endCall (run init [StartCall, ConnectedEv 0 1000, ConnectResolved 0]))) = Active"
proof -
  let ?c = "run init [StartCall, ConnectedEv 0 1000, ConnectResolved 0]"
  have h1: "clientRef init = None" and h1': "trace init = []"
    by (simp_all add: init_def)
  have h2: "clientRef ?c = Some 0"
    by (simp add: init_def handler_defs setter_defs Let_def)
  have h3: "status (endCall ?c) = Active"
    by (simp add: init_def handler_defs setter_defs Let_def)
  from C4_endCall [of init 0] h1 h1'
  have c1: "status (endCall init) = Idle \<and> startTime (endCall init) = None \<and>
      trace (endCall init) = [SetStatus Idle, SetStartTime None]"
    by simp
  from C4_endCall [of ?c 0] h2 have c2: "0 < endAwaiting (endCall ?c)"
    by blast
  from C4_endCall [of "endCall ?c" 0] c2 h3
  have c3: "status (step EndTeardownResolved (endCall ?c)) = Idle \<and>
      startTime (step EndTeardownResolved (endCall ?c)) = None \<and>
      status (step EndTeardownRejected (endCall ?c)) = Active"
    by presburger
  from h1 h2 c1 c2 c3 show ?thesis by blast
qed

subsection \<open>Starting a call over an old client\<close>

lemma run_append: "run c (xs @ ys) = run (run c xs) ys"
  by (induction xs arbitrary: c) simp_all

lemma before_connect_step:
  "before_connect i n c \<Longrightarrow> TeardownResolved i \<noteq> e \<Longrightarrow> before_connect i n (step e c)"
  by (cases e)
     (auto simp add: before_connect_def connect_issued_def handler_defs setter_defs Let_def
        nth_list_update nth_append split: option.splits if_splits)

lemma before_connect_run:
  "before_connect i n c \<Longrightarrow> TeardownResolved i \<notin> set evs \<Longrightarrow> before_connect i n (run c evs)"
  by (induction evs arbitrary: c) (simp_all add: before_connect_step)

lemma gave_up_step: "gave_up i n c \<Longrightarrow> gave_up i n (step e c)"
  by (cases e)
     (auto simp add: gave_up_def connect_issued_def handler_defs setter_defs Let_def
        nth_list_update nth_append split: option.splits if_splits)

lemma gave_up_run: "gave_up i n c \<Longrightarrow> gave_up i n (run c evs)"
  by (induction evs arbitrary: c) (simp_all add: gave_up_step)

lemma teardown_pending_step:
  "teardown_pending i c \<Longrightarrow> TeardownResolved i \<noteq> e \<Longrightarrow> TeardownRejected i \<noteq> e \<Longrightarrow>
     teardown_pending i (step e c)"
  by (cases e)
     (auto simp add: teardown_pending_def handler_defs setter_defs Let_def
        nth_list_update nth_append split: option.splits if_splits)

lemma teardown_pending_run:
  "teardown_pending i c \<Longrightarrow> TeardownResolved i \<notin> set evs \<Longrightarrow> TeardownRejected i \<notin> set evs \<Longrightarrow>
     teardown_pending i (run c evs)"
  by (induction evs arbitrary: c) (simp_all add: teardown_pending_step)

lemma startCall_with_client:
  "clientRef c = Some k \<Longrightarrow>
     trace (startCall c) = trace c @ [SetStatus Connecting, Disconnect k] \<and>
     teardown_pending (length (calls c)) (startCall c) \<and>
     before_connect (length (calls c)) (length (trace c)) (startCall c)"
  by (simp add: startCall_def new_client_def setter_defs Let_def teardown_pending_def
      before_connect_def connect_issued_def)

lemma teardown_rejected_gives_up:
  "teardown_pending i c \<Longrightarrow> before_connect i n c \<Longrightarrow>
     status (step (TeardownRejected i) c) = Error \<and> gave_up i n (step (TeardownRejected i) c)"
  by (simp add: teardown_pending_def before_connect_def gave_up_def connect_issued_def
      startCall_catch_def setter_defs)

lemma teardown_resolved_connects:
  "teardown_pending i c \<Longrightarrow>
     trace (step (TeardownResolved i) c) = trace c @ [Connect i]"
  by (simp add: teardown_pending_def startCall_teardown_done_def setter_defs)


text \<open>
  C5, the claim as stated: a failed teardown of the old client does not keep the new
  \<open>connect\<close> from being issued. The \<open>await\<close> of line 26 is inside the \<open>try\<close>: a rejected
  \<open>disconnect\<close> goes to the \<open>catch\<close>, \<open>status\<close> becomes \<open>error\<close> and \<open>connect\<close> is never
  called for this attempt.
\<close>

theorem C5_failed_teardown_blocks_connect:
  "status (run init
     [StartCall, ConnectedEv 0 1000, ConnectResolved 0, DisconnectedEv 0, StartCall,
      TeardownRejected 1]) = Error \<and>
   Disconnect 0 \<in> set (trace (run init
     [StartCall, ConnectedEv 0 1000, ConnectResolved 0, DisconnectedEv 0, StartCall,
      TeardownRejected 1])) \<and>
   Connect 1 \<notin> set (trace (run init
     [StartCall, ConnectedEv 0 1000, ConnectResolved 0, DisconnectedEv 0, StartCall,
      TeardownRejected 1])) \<and>
   phase (calls (run init
     [StartCall, ConnectedEv 0 1000, ConnectResolved 0, DisconnectedEv 0, StartCall,
      TeardownRejected 1]) ! 1) = Settled \<and>
   feasible init
     [StartCall, ConnectedEv 0 1000, ConnectResolved 0, DisconnectedEv 0, StartCall,
      TeardownRejected 1]"
  by (simp add: init_def handler_defs setter_defs Let_def)

text \<open>
  C5, amended: when \<open>startCall\<close> finds a client in \<open>clientRef\<close> it calls \<open>disconnect\<close> on it
  first; whatever else happens, \<open>connect\<close> is not called on the new client before that
  \<open>disconnect\<close> has resolved; when it resolves, \<open>connect\<close> is called next; when it
  rejects, \<open>status\<close> becomes \<open>error\<close> and \<open>connect\<close> is never called for this attempt.
\<close>

theorem C5_teardown_then_connect:
  assumes "clientRef c = Some k"
  shows "trace (startCall c) = trace c @ [SetStatus Connecting, Disconnect k] \<and>
    (TeardownResolved (length (calls c)) \<notin> set evs \<longrightarrow>
       \<not> connect_issued (length (calls c)) (length (trace c)) (run (startCall c) evs)) \<and>
    (TeardownResolved (length (calls c)) \<notin> set evs \<and>
     TeardownRejected (length (calls c)) \<notin> set evs \<longrightarrow>
       trace (run (startCall c) (evs @ [TeardownResolved (length (calls c))])) =
         trace (run (startCall c) evs) @ [Connect (length (calls c))] \<and>
       status (run (startCall c) (evs @ [TeardownRejected (length (calls c))])) = Error \<and>
       \<not> connect_issued (length (calls c)) (length (trace c))
           (run (startCall c) (evs @ TeardownRejected (length (calls c)) # evs')))"
proof -
  let ?i = "length (calls c)" and ?n = "length (trace c)"
  note s = startCall_with_client [OF assms]
  have 1: "trace (startCall c) = trace c @ [SetStatus Connecting, Disconnect k]"
    using s by simp
  have 2: "\<not> connect_issued ?i ?n (run (startCall c) evs)"
    if "TeardownResolved ?i \<notin> set evs"
    using before_connect_run [of ?i ?n "startCall c" evs] s that
    by (simp add: before_connect_def)
  have 3: "trace (run (startCall c) (evs @ [TeardownResolved ?i])) =
         trace (run (startCall c) evs) @ [Connect ?i] \<and>
       status (run (startCall c) (evs @ [TeardownRejected ?i])) = Error \<and>
       \<not> connect_issued ?i ?n (run (startCall c) (evs @ TeardownRejected ?i # evs'))"
    if a: "TeardownResolved ?i \<notin> set evs" and b: "TeardownRejected ?i \<notin> set evs"
  proof -
    have p: "teardown_pending ?i (run (startCall c) evs)"
      using teardown_pending_run [of ?i "startCall c" evs] s a b by simp
    have q: "before_connect ?i ?n (run (startCall c) evs)"
      using before_connect_run [of ?i ?n "startCall c" evs] s a by simp
    note r = teardown_rejected_gives_up [OF p q]
    have "gave_up ?i ?n (run (step (TeardownRejected ?i) (run (startCall c) evs)) evs')"
      using r by (simp add: gave_up_run)
    then have "\<not> connect_issued ?i ?n (run (startCall c) (evs @ TeardownRejected ?i # evs'))"
      by (simp add: run_append gave_up_def)
    with r teardown_resolved_connects [OF p] show ?thesis
      by (simp add: run_append)
  qed
  from 1 2 3 show ?thesis by blast
qed


theorem C5_teardown_then_connect_witness:
  "clientRef (run init [StartCall, ConnectedEv 0 1000, ConnectResolved 0]) = Some 0 \<and>
   length (calls (run init [StartCall, ConnectedEv 0 1000, ConnectResolved 0])) = 1 \<and>
   trace (startCall (run init [StartCall, ConnectedEv 0 1000, ConnectResolved 0])) =
     trace (run init [StartCall, ConnectedEv 0 1000, ConnectResolved 0]) @
       [SetStatus Connecting, Disconnect 0] \<and>
   \<not> connect_issued 1 (length (trace (run init [StartCall, ConnectedEv 0 1000, ConnectResolved 0])))
       (run (startCall (run init [StartCall, ConnectedEv 0 1000, ConnectResolved 0])) [DisconnectedEv 0]) \<and>
   trace (run (startCall (run init [StartCall, ConnectedEv 0 1000, ConnectResolved 0]))
       ([DisconnectedEv 0] @ [TeardownResolved 1])) =
     trace (run (startCall (run init [StartCall, ConnectedEv 0 1000, ConnectResolved 0]))
       [DisconnectedEv 0]) @ [Connect 1] \<and>
   status (run (startCall (run init [StartCall, ConnectedEv 0 1000, ConnectResolved 0]))
       ([DisconnectedEv 0] @ [TeardownRejected 1])) = Error"
proof -
  let ?c = "run init [StartCall, ConnectedEv 0 1000, ConnectResolved 0]"
  have h1: "clientRef ?c = Some 0"
    by (simp add: init_def handler_defs setter_defs Let_def)
  have h2: "length (calls ?c) = 1"
    by (simp add: init_def handler_defs setter_defs Let_def)
  have h3: "TeardownResolved (length (calls ?c)) \<notin> set [DisconnectedEv 0] \<and>
            TeardownRejected (length (calls ?c)) \<notin> set [DisconnectedEv 0]"
    by simp
  from C5_teardown_then_connect [OF h1, of "[DisconnectedEv 0]" "[]"] h3
  have "trace (startCall ?c) = trace ?c @ [SetStatus Connecting, Disconnect 0] \<and>
    \<not> connect_issued (length (calls ?c)) (length (trace ?c))
        (run (startCall ?c) [DisconnectedEv 0]) \<and>
    trace (run (startCall ?c) ([DisconnectedEv 0] @ [TeardownResolved (length (calls ?c))])) =
      trace (run (startCall ?c) [DisconnectedEv 0]) @ [Connect (length (calls ?c))] \<and>
    status (run (startCall ?c) ([DisconnectedEv 0] @ [TeardownRejected (length (calls ?c))])) =
      Error"
    by blast
  then show ?thesis
    unfolding h2 using h1 h2 by blast
qed

section \<open>Proofs about the session clock\<close>

subsection \<open>Rounding to a double is monotone\<close>

lemma rne_bounds: "\<lfloor>x\<rfloor> \<le> rne x \<and> rne x \<le> \<lfloor>x\<rfloor> + 1"
  by (simp add: rne_def Let_def)

lemma rne_same_floor:
  assumes "x \<le> y" and "\<lfloor>x\<rfloor> = \<lfloor>y\<rfloor>"
  shows "rne x \<le> rne y"
  using assms by (auto simp add: rne_def Let_def)

lemma rne_mono: "x \<le> y \<Longrightarrow> rne x \<le> rne y"
proof (cases "\<lfloor>x\<rfloor> = \<lfloor>y\<rfloor>")
  case True
  assume "x \<le> y"
  then show ?thesis using True by (rule rne_same_floor)
next
  case False
  assume "x \<le> y"
  then have "\<lfloor>x\<rfloor> \<le> \<lfloor>y\<rfloor>" by (rule floor_mono)
  with False have "\<lfloor>x\<rfloor> + 1 \<le> \<lfloor>y\<rfloor>" by simp
  with rne_bounds [of x] rne_bounds [of y] show ?thesis by linarith
qed

lemma rne_of_int [simp]: "rne (of_int n) = n"
  by (simp add: rne_def)

lemma expo_bounds:
  assumes "0 < a"
  shows "2 powi expo a \<le> a \<and> a < 2 powi (expo a + 1)"
proof (cases "1 \<le> a")
  case True
  let ?n = "\<lfloor>a\<rfloor>"
  have n: "0 < ?n" using True by simp
  have b1: "1 \<le> bitlen ?n" using n by (simp add: bitlen_alt_def)
  from bitlen_bounds [OF n] have lo: "2 ^ nat (bitlen ?n - 1) \<le> ?n" and hi: "?n < 2 ^ nat (bitlen ?n)"
    by simp_all
  have "(2::real) ^ nat (bitlen ?n - 1) \<le> of_int ?n"
    using lo by (metis of_int_le_iff of_int_numeral of_int_power)
  also have "\<dots> \<le> a" by simp
  finally have 1: "(2::real) powi (bitlen ?n - 1) \<le> a"
    using b1 by (simp add: power_int_nonneg_exp)
  have "?n + 1 \<le> 2 ^ nat (bitlen ?n)" using hi by simp
  then have "of_int (?n + 1) \<le> (2::real) ^ nat (bitlen ?n)"
    by (metis of_int_le_iff of_int_numeral of_int_power)
  moreover have "a < of_int (?n + 1)" by linarith
  ultimately have "a < (2::real) ^ nat (bitlen ?n)" by linarith
  then have 2: "a < (2::real) powi (bitlen ?n - 1 + 1)"
    using b1 by (simp add: power_int_nonneg_exp)
  from 1 2 True show ?thesis by (simp add: expo_def)
next
  case False
  let ?y = "1 / a"
  let ?m = "\<lceil>?y\<rceil> - 1"
  have y: "1 < ?y" using False assms by simp
  have m: "0 < ?m" using y by linarith
  have b1: "1 \<le> bitlen ?m" using m by (simp add: bitlen_alt_def)
  from bitlen_bounds [OF m] have lo: "2 ^ nat (bitlen ?m - 1) \<le> ?m" and hi: "?m < 2 ^ nat (bitlen ?m)"
    by simp_all
  have "(2::real) ^ nat (bitlen ?m - 1) \<le> of_int ?m"
    using lo by (metis of_int_le_iff of_int_numeral of_int_power)
  also have "\<dots> < ?y" by linarith
  finally have A: "(2::real) ^ nat (bitlen ?m - 1) < 1 / a" .
  have "?m + 1 \<le> 2 ^ nat (bitlen ?m)" using hi by simp
  then have "of_int (?m + 1) \<le> (2::real) ^ nat (bitlen ?m)"
    by (metis of_int_le_iff of_int_numeral of_int_power)
  moreover have "?y \<le> of_int (?m + 1)" by simp
  ultimately have B: "1 / a \<le> (2::real) ^ nat (bitlen ?m)" by linarith
  have 1: "(2::real) powi (- bitlen ?m) \<le> a"
  proof -
    have "1 / (2::real) ^ nat (bitlen ?m) \<le> a"
      using B assms by (simp add: field_simps)
    then show ?thesis using b1 by (simp add: power_int_def inverse_eq_divide power_one_over)
  qed
  have 2: "a < (2::real) powi (- bitlen ?m + 1)"
  proof -
    have "a < 1 / (2::real) ^ nat (bitlen ?m - 1)"
      using A assms by (simp add: field_simps)
    moreover have "(2::real) powi (- bitlen ?m + 1) = 1 / 2 ^ nat (bitlen ?m - 1)"
      using b1 by (simp add: power_int_def inverse_eq_divide power_one_over nat_diff_distrib)
    ultimately show ?thesis by simp
  qed
  from 1 2 False show ?thesis by (simp add: expo_def)
qed

lemma expo_mono:
  assumes "0 < a" and "a \<le> b"
  shows "expo a \<le> expo b"
proof -
  have "(2::real) powi expo a \<le> a" using expo_bounds [OF assms(1)] by simp
  also have "a \<le> b" by fact
  also have "b < 2 powi (expo b + 1)" using expo_bounds [of b] assms by simp
  finally have lt: "(2::real) powi expo a < 2 powi (expo b + 1)" .
  have "expo a < expo b + 1"
  proof (rule ccontr)
    assume "\<not> expo a < expo b + 1"
    then have "expo b + 1 \<le> expo a" by simp
    then have "(2::real) powi (expo b + 1) \<le> 2 powi expo a"
      by (rule power_int_increasing) simp
    with lt show False by simp
  qed
  then show ?thesis by simp
qed

lemma to_double_alt: "to_double x = (if x = 0 then 0 else sgn x * pos_double \<bar>x\<bar>)"
  by (simp add: to_double_def pos_double_def)

lemma grid_mono:
  assumes "a \<le> b" and "0 < (u::real)"
  shows "of_int (rne (a / u)) * u \<le> of_int (rne (b / u)) * u"
proof -
  have "a / u \<le> b / u" using assms by (simp add: divide_right_mono)
  then have "rne (a / u) \<le> rne (b / u)" by (rule rne_mono)
  then show ?thesis using assms(2) by simp
qed

lemma pos_double_nonneg: "0 < a \<Longrightarrow> 0 \<le> pos_double a"
proof -
  assume "0 < a"
  then have "0 \<le> a / 2 powi ulp_exp a" by simp
  then have "0 \<le> \<lfloor>a / 2 powi ulp_exp a\<rfloor>" by simp
  with rne_bounds [of "a / 2 powi ulp_exp a"] have "0 \<le> rne (a / 2 powi ulp_exp a)" by linarith
  then show ?thesis by (simp add: pos_double_def)
qed

lemma two_powi_int: "0 \<le> n \<Longrightarrow> (2::real) powi n = of_int (2 ^ nat n)"
  by (simp add: power_int_nonneg_exp)

lemma pos_double_le_pow:
  assumes "0 < a" and "a \<le> 2 powi e" and "ulp_exp a \<le> e"
  shows "pos_double a \<le> 2 powi e"
proof -
  let ?k = "ulp_exp a"
  let ?u = "(2::real) powi ?k"
  have u: "0 < ?u" by simp
  have "(2::real) powi e / ?u = 2 powi (e - ?k)"
    by (simp add: power_int_diff)
  also have "\<dots> = of_int (2 ^ nat (e - ?k))"
    using assms(3) by (intro two_powi_int) simp
  finally have q: "(2::real) powi e / ?u = of_int (2 ^ nat (e - ?k))" .
  have "of_int (rne (a / ?u)) * ?u \<le> of_int (rne (2 powi e / ?u)) * ?u"
    using assms(2) u by (rule grid_mono)
  also have "\<dots> = 2 powi e / ?u * ?u"
    unfolding q by (simp only: rne_of_int)
  also have "\<dots> = 2 powi e" by simp
  finally show ?thesis by (simp add: pos_double_def)
qed

lemma pos_double_ge_pow:
  assumes "2 powi e \<le> b" and "ulp_exp b \<le> e"
  shows "2 powi e \<le> pos_double b"
proof -
  let ?k = "ulp_exp b"
  let ?u = "(2::real) powi ?k"
  have u: "0 < ?u" by simp
  have "(2::real) powi e / ?u = 2 powi (e - ?k)"
    by (simp add: power_int_diff)
  also have "\<dots> = of_int (2 ^ nat (e - ?k))"
    using assms(2) by (intro two_powi_int) simp
  finally have q: "(2::real) powi e / ?u = of_int (2 ^ nat (e - ?k))" .
  have "2 powi e = 2 powi e / ?u * ?u" by simp
  also have "\<dots> = of_int (rne (2 powi e / ?u)) * ?u"
    unfolding q by (simp only: rne_of_int)
  also have "\<dots> \<le> of_int (rne (b / ?u)) * ?u"
    using assms(1) u by (rule grid_mono)
  finally show ?thesis by (simp add: pos_double_def)
qed

lemma pos_double_mono:
  assumes "0 < a" and "a \<le> b"
  shows "pos_double a \<le> pos_double b"
proof (cases "ulp_exp a = ulp_exp b")
  case True
  have "of_int (rne (a / 2 powi ulp_exp b)) * (2::real) powi ulp_exp b \<le>
        of_int (rne (b / 2 powi ulp_exp b)) * 2 powi ulp_exp b"
    using assms(2) by (rule grid_mono) simp
  then show ?thesis by (simp add: pos_double_def True)
next
  case False
  have b: "0 < b" using assms by simp
  have le: "expo a \<le> expo b" using assms by (rule expo_mono)
  then have "ulp_exp a \<le> ulp_exp b" by (simp add: ulp_exp_def)
  with False have lt: "ulp_exp a < ulp_exp b" by simp
  then have eb: "ulp_exp b = expo b - 52" and ab: "expo a < expo b"
    using le by (auto simp add: ulp_exp_def max_def split: if_splits)
  have "a < 2 powi (expo a + 1)" using expo_bounds [OF assms(1)] by simp
  also have "\<dots> \<le> 2 powi expo b"
    using ab by (intro power_int_increasing) simp_all
  finally have "a \<le> 2 powi expo b" by simp
  then have "pos_double a \<le> 2 powi expo b"
    using assms(1) lt eb by (intro pos_double_le_pow) simp_all
  also have "\<dots> \<le> pos_double b"
    using expo_bounds [OF b] eb by (intro pos_double_ge_pow) simp_all
  finally show ?thesis .
qed

lemma to_double_mono: "x \<le> y \<Longrightarrow> to_double x \<le> to_double y"
proof -
  assume xy: "x \<le> y"
  consider "x = 0" | "y = 0" | "0 < x" | "y < 0" | "x < 0" "0 < y"
    by linarith
  then show ?thesis
  proof cases
    case 1
    with xy pos_double_nonneg [of y] show ?thesis
      by (cases "y = 0") (simp_all add: to_double_alt)
  next
    case 2
    with xy pos_double_nonneg [of "- x"] show ?thesis
      by (cases "x = 0") (simp_all add: to_double_alt)
  next
    case 3
    with xy pos_double_mono [of x y] show ?thesis
      by (simp add: to_double_alt)
  next
    case 4
    with xy pos_double_mono [of "- y" "- x"] show ?thesis
      by (simp add: to_double_alt)
  next
    case 5
    with pos_double_nonneg [of "- x"] pos_double_nonneg [of y] show ?thesis
      by (simp add: to_double_alt)
  qed
qed

lemma to_double_0 [simp]: "to_double 0 = 0"
  by (simp add: to_double_def)

lemma elapsed_mono: "a \<le> b \<Longrightarrow> elapsed s a \<le> elapsed s b"
  unfolding elapsed_def
  by (intro to_double_mono divide_right_mono) simp_all

subsection \<open>The timers and the samples of the clock\<close>

lemmas tracker_defs = setInterval_def clearInterval_def clear_current_def tick_body_def

lemma timers_ok_mount: "timers_ok (mount p)"
  by (cases p rule: ticking.cases)
     (simp_all add: timers_ok_def mount_def tracker_defs)

lemma timers_ok_cases:
  "timers_ok t \<Longrightarrow>
     timers t = [] \<or>
     (\<exists>n s. timers t = [(n, s)] \<and> timerRef t = Some n \<and> mounted t \<and>
            props t = (True, Some s) \<and> s \<noteq> 0)"
  by (cases "props t" rule: ticking.cases) (auto simp add: timers_ok_def)

lemma timers_ok_render: "timers_ok t \<Longrightarrow> timers_ok (tstep (Render p) t)"
  using timers_ok_cases [of t]
  by (cases p rule: ticking.cases)
     (auto simp add: timers_ok_def tracker_defs split: option.splits)

lemma timers_ok_step: "timers_ok t \<Longrightarrow> timers_ok (tstep e t)"
proof (cases e)
  case (Render p)
  assume "timers_ok t"
  with Render show ?thesis by (simp only: timers_ok_render)
next
  case (Tick n now)
  assume "timers_ok t"
  with Tick show ?thesis
    by (simp add: timers_ok_def tick_body_def Let_def split: option.splits)
next
  case Unmount
  assume "timers_ok t"
  with Unmount timers_ok_cases [of t] show ?thesis
    by (auto simp add: timers_ok_def tracker_defs split: option.splits)
qed

lemma timers_ok_run: "timers_ok t \<Longrightarrow> timers_ok (trun t evs)"
  by (induction evs arbitrary: t) (simp_all add: timers_ok_step)

lemma samples_ok_mount: "samples_ok (mount p)"
  by (cases p rule: ticking.cases)
     (simp_all add: samples_ok_def mount_def tracker_defs)

lemma samples_ok_step: "samples_ok t \<Longrightarrow> samples_ok (tstep e t)"
proof (cases e)
  case (Render p)
  assume "samples_ok t"
  with Render show ?thesis
    by (cases p rule: ticking.cases)
       (simp_all add: samples_ok_def tracker_defs split: option.splits)
next
  case (Tick n now)
  assume "samples_ok t"
  with Tick show ?thesis
    by (simp add: samples_ok_def tick_body_def Let_def split: option.splits)
next
  case Unmount
  assume "samples_ok t"
  with Unmount show ?thesis
    by (simp add: samples_ok_def tracker_defs split: option.splits)
qed

lemma samples_ok_run: "samples_ok t \<Longrightarrow> samples_ok (trun t evs)"
  by (induction evs arbitrary: t) (simp_all add: samples_ok_step)

lemma idle_timers: "timers_ok t \<Longrightarrow> \<not> ticking (props t) \<or> \<not> mounted t \<Longrightarrow> timers t = []"
  using timers_ok_cases [of t] by auto

lemma no_timer_ticks: "timers t = [] \<Longrightarrow> \<forall>e\<in>set ticks. is_tick e \<Longrightarrow> trun t ticks = t"
proof (induction ticks arbitrary: t)
  case Nil
  then show ?case by simp
next
  case (Cons e ticks)
  then show ?case by (cases e) simp_all
qed

lemma one_timer_ticks:
  "timers t = [(n, s)] \<Longrightarrow> \<forall>e\<in>set ticks. is_tick e \<Longrightarrow>
     timers (trun t ticks) = [(n, s)] \<and>
     emitted (trun t ticks) =
       emitted t @
       map (\<lambda>e. (elapsed s (tick_time e), to_double (elapsed s (tick_time e) * COST_PER_SECOND)))
         (filter (fires n) ticks)"
proof (induction ticks arbitrary: t)
  case Nil
  then show ?case by simp
next
  case (Cons e ticks)
  show ?case
  proof (cases e)
    case (Tick m now)
    let ?t = "tstep e t"
    have 1: "timers ?t = [(n, s)]"
      using Cons.prems(1) Tick by (simp add: tick_body_def Let_def)
    have 2: "emitted ?t =
       emitted t @
       map (\<lambda>e. (elapsed s (tick_time e), to_double (elapsed s (tick_time e) * COST_PER_SECOND)))
         (filter (fires n) [e])"
      using Cons.prems(1) Tick by (simp add: tick_body_def Let_def elapsed_def)
    have 3: "\<forall>e\<in>set ticks. is_tick e"
      using Cons.prems(2) by simp
    from Cons.IH [OF 1 3] 2 show ?thesis by simp
  next
    case (Render p)
    with Cons.prems(2) show ?thesis by simp
  next
    case Unmount
    with Cons.prems(2) show ?thesis by simp
  qed
qed

lemma elapsed_sorted:
  "sorted (map tick_time ticks) \<Longrightarrow>
     sorted (map (\<lambda>e. elapsed s (tick_time e)) (filter P ticks))"
proof -
  assume "sorted (map tick_time ticks)"
  then have "sorted_wrt (\<lambda>x y. tick_time x \<le> tick_time y) ticks"
    by (simp add: sorted_map)
  then have "sorted_wrt (\<lambda>x y. elapsed s (tick_time x) \<le> elapsed s (tick_time y)) ticks"
    by (rule sorted_wrt_mono_rel [rotated]) (simp add: elapsed_mono)
  then have "sorted_wrt (\<lambda>x y. elapsed s (tick_time x) \<le> elapsed s (tick_time y)) (filter P ticks)"
    by (rule sorted_wrt_filter)
  then show ?thesis by (simp add: sorted_map)
qed

lemma new_samples_sorted:
  assumes "timers_ok t" and "\<forall>e\<in>set ticks. is_tick e" and "sorted (map tick_time ticks)"
  shows "sorted (map fst (drop (length (emitted t)) (emitted (trun t ticks))))"
proof -
  from timers_ok_cases [OF assms(1)] show ?thesis
  proof
    assume "timers t = []"
    then show ?thesis using no_timer_ticks [OF _ assms(2)] by simp
  next
    assume "\<exists>n s. timers t = [(n, s)] \<and> timerRef t = Some n \<and> mounted t \<and>
            props t = (True, Some s) \<and> s \<noteq> 0"
    then obtain n s where "timers t = [(n, s)]" by blast
    from one_timer_ticks [OF this assms(2)] elapsed_sorted [OF assms(3), of s "fires n"]
    show ?thesis by (simp add: comp_def)
  qed
qed


lemma timers_ok_reach: "timers_ok (trun (mount p) evs)"
  by (rule timers_ok_run [OF timers_ok_mount])

lemma samples_ok_reach: "samples_ok (trun (mount p) evs)"
  by (rule samples_ok_run [OF samples_ok_mount])

lemma tick_sample:
  assumes "timers_ok t"
  shows "tstep (Tick n now) t = t \<or>
    (\<exists>s. props t = (True, Some s) \<and>
       duration (tstep (Tick n now) t) = to_double (to_double (real_of_int (now - s)) / 1000) \<and>
       cost (tstep (Tick n now) t) =
         to_double (duration (tstep (Tick n now) t) * COST_PER_SECOND) \<and>
       emitted (tstep (Tick n now) t) =
         emitted t @ [(duration (tstep (Tick n now) t), cost (tstep (Tick n now) t))])"
  using timers_ok_cases [OF assms]
  by (auto simp add: tick_body_def Let_def)

lemmas double_defs = to_double_def ulp_exp_def expo_def rne_def compute_bitlen power_int_minus

text \<open>
  C9, the claim as stated: every sample has \<open>cost = duration * 0.0005\<close> exactly, with
  \<open>duration = (now - startTime) / 1000\<close>. The division and the product are operations on
  doubles and the constant is the double nearest to 0.0005: one callback at 1005 ms after
  \<open>startTime\<close> stores a duration that is not 1005/1000 and a cost (printed by JavaScript
  as 0.0005024999999999999) that is neither that duration times the constant nor that
  duration times 5/10000.
\<close>

theorem C9_stored_cost_is_rounded:
  "duration (trun (mount (True, Some 1000)) [Tick 1 2005]) = 1131529406376837 / 1125899906842624 \<and>
   cost (trun (mount (True, Some 1000)) [Tick 1 2005]) = 1158686112129881 / 2305843009213693952 \<and>
   COST_PER_SECOND = 1152921504606847 / 2305843009213693952 \<and>
   cost (trun (mount (True, Some 1000)) [Tick 1 2005]) \<noteq>
     duration (trun (mount (True, Some 1000)) [Tick 1 2005]) * COST_PER_SECOND \<and>
   cost (trun (mount (True, Some 1000)) [Tick 1 2005]) \<noteq>
     duration (trun (mount (True, Some 1000)) [Tick 1 2005]) * (5 / 10000) \<and>
   duration (trun (mount (True, Some 1000)) [Tick 1 2005]) \<noteq> 1005 / 1000 \<and>
   COST_PER_SECOND \<noteq> 5 / 10000"
proof -
  have k: "COST_PER_SECOND = 1152921504606847 / 2305843009213693952"
    by (simp add: COST_PER_SECOND_def double_defs Let_def)
  have d: "duration (trun (mount (True, Some 1000)) [Tick 1 2005]) = 1131529406376837 / 1125899906842624"
    by (simp add: mount_def tracker_defs double_defs Let_def)
  have c: "cost (trun (mount (True, Some 1000)) [Tick 1 2005]) = 1158686112129881 / 2305843009213693952"
    by (simp add: mount_def tracker_defs double_defs Let_def k)
  show ?thesis
    unfolding d c k by simp
qed

text \<open>
  C9, amended: every sample the clock stores has \<open>cost\<close> equal to the product of its
  \<open>duration\<close> and \<open>COST_PER_SECOND\<close> rounded to the nearest double, where
  \<open>COST_PER_SECOND\<close> is the double nearest to 0.0005; a timer callback that runs at time
  \<open>now\<close> stores as \<open>duration\<close> the double nearest to \<open>(now - startTime) / 1000\<close> for the
  \<open>startTime\<close> of the current props, and the cost computed from that same duration (a
  callback of a cleared interval stores nothing).
\<close>

theorem C9_cost_is_rounded_elapsed_times_rate:
  "COST_PER_SECOND = to_double (5 / 10000) \<and>
   cost (trun (mount p) evs) = to_double (duration (trun (mount p) evs) * COST_PER_SECOND) \<and>
   (\<forall>x\<in>set (emitted (trun (mount p) evs)). snd x = to_double (fst x * COST_PER_SECOND)) \<and>
   (tstep (Tick n now) (trun (mount p) evs) = trun (mount p) evs \<or>
    (\<exists>s. props (trun (mount p) evs) = (True, Some s) \<and>
       duration (tstep (Tick n now) (trun (mount p) evs)) =
         to_double (to_double (real_of_int (now - s)) / 1000) \<and>
       cost (tstep (Tick n now) (trun (mount p) evs)) =
         to_double (duration (tstep (Tick n now) (trun (mount p) evs)) * COST_PER_SECOND) \<and>
       emitted (tstep (Tick n now) (trun (mount p) evs)) =
         emitted (trun (mount p) evs) @
           [(duration (tstep (Tick n now) (trun (mount p) evs)),
             cost (tstep (Tick n now) (trun (mount p) evs)))]))"
proof -
  have 1: "COST_PER_SECOND = to_double (5 / 10000)"
    by (simp only: COST_PER_SECOND_def)
  have 2: "cost (trun (mount p) evs) = to_double (duration (trun (mount p) evs) * COST_PER_SECOND)"
    using samples_ok_reach [of p evs] by (simp add: samples_ok_def)
  have 3: "\<forall>x\<in>set (emitted (trun (mount p) evs)). snd x = to_double (fst x * COST_PER_SECOND)"
    using samples_ok_reach [of p evs] by (simp add: samples_ok_def list_all_iff)
  note 4 = tick_sample [OF timers_ok_reach, of n now p evs]
  from 1 2 3 4 show ?thesis by blast
qed

theorem C9_cost_is_rounded_elapsed_times_rate_witness:
  "((1131529406376837 / 1125899906842624, 1158686112129881 / 2305843009213693952) :: real \<times> real) \<in>
     set (emitted (trun (mount (True, Some 1000)) [Tick 1 1100, Tick 1 2005])) \<and>
   snd ((1131529406376837 / 1125899906842624, 1158686112129881 / 2305843009213693952) :: real \<times> real) =
     to_double (fst ((1131529406376837 / 1125899906842624, 1158686112129881 / 2305843009213693952) :: real \<times> real) * COST_PER_SECOND)"
proof -
  have k: "COST_PER_SECOND = 1152921504606847 / 2305843009213693952"
    by (simp add: COST_PER_SECOND_def double_defs Let_def)
  have h: "((1131529406376837 / 1125899906842624, 1158686112129881 / 2305843009213693952) :: real \<times> real) \<in>
     set (emitted (trun (mount (True, Some 1000)) [Tick 1 1100, Tick 1 2005]))"
    by (simp add: mount_def tracker_defs double_defs Let_def k)
  from C9_cost_is_rounded_elapsed_times_rate [of "(True, Some 1000)" "[Tick 1 1100, Tick 1 2005]"] h
  show ?thesis by blast
qed

lemma tick_keeps_frame:
  "props (tstep (Tick n now) t) = props t \<and> mounted (tstep (Tick n now) t) = mounted t \<and>
   timers (tstep (Tick n now) t) = timers t"
  by (simp add: tick_body_def Let_def split: option.splits)

lemma same_props_run:
  "\<forall>e\<in>set es. keeps_props (props t) e \<Longrightarrow> trun t es = trun t (filter is_tick es)"
proof (induction es arbitrary: t)
  case Nil
  show ?case by simp
next
  case (Cons e es)
  show ?case
  proof (cases e)
    case (Tick n now)
    have "props (tstep e t) = props t"
      unfolding Tick by (simp only: tick_keeps_frame)
    then have "\<forall>x\<in>set es. keeps_props (props (tstep e t)) x"
      using Cons.prems by simp
    then have "trun (tstep e t) es = trun (tstep e t) (filter is_tick es)"
      by (rule Cons.IH)
    then show ?thesis
      unfolding Tick by simp
  next
    case (Render q)
    have "\<forall>x\<in>set es. keeps_props (props t) x"
      using Cons.prems by simp
    then have "trun t es = trun t (filter is_tick es)"
      by (rule Cons.IH)
    moreover have "tstep e t = t"
      using Cons.prems Render by simp
    ultimately show ?thesis
      unfolding Render by simp
  next
    case Unmount
    with Cons.prems show ?thesis by simp
  qed
qed

lemma unmounted_run: "\<not> mounted t \<Longrightarrow> timers t = [] \<Longrightarrow> trun t es = t"
proof (induction es arbitrary: t)
  case Nil
  then show ?case by simp
next
  case (Cons e es)
  then have "tstep e t = t" by (cases e) simp_all
  with Cons show ?case by simp
qed

lemma filter_ticks: "\<forall>e\<in>set (filter is_tick es). is_tick e"
  by simp

lemma frozen_run:
  assumes ok: "timers_ok t" and idle: "\<not> ticking (props t) \<or> \<not> mounted t"
    and same: "mounted t \<longrightarrow> (\<forall>e\<in>set es. keeps_props (props t) e)"
  shows "trun t es = t"
proof (cases "mounted t")
  case True
  with same have "\<forall>e\<in>set es. keeps_props (props t) e"
    by simp
  then have "trun t es = trun t (filter is_tick es)"
    by (rule same_props_run)
  also have "\<dots> = t"
    using idle_timers [OF ok idle] filter_ticks by (rule no_timer_ticks)
  finally show ?thesis .
next
  case False
  with idle_timers [OF ok idle] show ?thesis by (simp add: unmounted_run)
qed

lemma render_inactive:
  "duration (tstep (Render (False, st)) t) = duration t \<and>
   cost (tstep (Render (False, st)) t) = cost t \<and>
   (mounted (tstep (Render (False, st)) t) \<longrightarrow> props (tstep (Render (False, st)) t) = (False, st))"
  by (cases st) (auto simp add: tracker_defs split: option.splits)

lemma inactive_not_ticking: "\<not> ticking (False, st)"
  by (cases st) simp_all

text \<open>
  C8, the claim as stated: while \<open>isActive\<close> is true and \<open>startTime\<close> is set, the durations
  stored by successive timer callbacks never decrease. The effect depends on \<open>startTime\<close>:
  when a render passes a later \<open>startTime\<close> while \<open>isActive\<close> stays true, the interval is
  replaced and the next callback stores a smaller duration; and a callback that reads an
  earlier \<open>Date.now()\<close> than its predecessor stores a smaller duration.
\<close>

theorem C8_later_startTime_lowers_duration:
  "ticking (props (mount (True, Some 1000))) \<and>
   ticking (props (trun (mount (True, Some 1000)) [Tick 1 3900, Render (True, Some 4000)])) \<and>
   sorted (map tick_time [Tick 1 3900, Tick 2 4100]) \<and>
   map fst (emitted (trun (mount (True, Some 1000))
     [Tick 1 3900, Render (True, Some 4000), Tick 2 4100])) =
     [6530219459687219 / 2251799813685248, 3602879701896397 / 36028797018963968] \<and>
   \<not> sorted (map fst (emitted (trun (mount (True, Some 1000))
     [Tick 1 3900, Render (True, Some 4000), Tick 2 4100]))) \<and>
   map fst (emitted (trun (mount (True, Some 1000)) [Tick 1 2000, Tick 1 1500])) = [1, 1 / 2] \<and>
   \<not> sorted (map fst (emitted (trun (mount (True, Some 1000)) [Tick 1 2000, Tick 1 1500])))"
proof -
  have 1: "map fst (emitted (trun (mount (True, Some 1000))
     [Tick 1 3900, Render (True, Some 4000), Tick 2 4100])) =
     [6530219459687219 / 2251799813685248, 3602879701896397 / 36028797018963968]"
    by (simp add: mount_def tracker_defs double_defs Let_def)
  have 2: "map fst (emitted (trun (mount (True, Some 1000)) [Tick 1 2000, Tick 1 1500])) =
     [1, 1 / 2]"
    by (simp add: mount_def tracker_defs double_defs Let_def)
  have 3: "ticking (props (mount (True, Some 1000))) \<and>
   ticking (props (trun (mount (True, Some 1000)) [Tick 1 3900, Render (True, Some 4000)]))"
    by (simp add: mount_def tracker_defs Let_def)
  have 4: "\<not> sorted (map fst (emitted (trun (mount (True, Some 1000))
     [Tick 1 3900, Render (True, Some 4000), Tick 2 4100])))"
    unfolding 1 by (subst sorted2) simp
  have 5: "\<not> sorted (map fst (emitted (trun (mount (True, Some 1000)) [Tick 1 2000, Tick 1 1500])))"
    unfolding 2 by (subst sorted2) simp
  have 6: "sorted (map tick_time [Tick 1 3900, Tick 2 4100])"
    by simp
  from 1 2 3 4 5 6 show ?thesis by blast
qed

text \<open>
  C8, amended: from any state of the clock, while the props stay as they are (timer
  callbacks, and renders that pass the same props), the durations stored by successive
  callbacks are non-decreasing, provided the readings of \<open>Date.now()\<close> are. When the props
  are not both set, such events change nothing at all. A render with \<open>isActive = false\<close>
  keeps the stored duration and cost, and from then on timer events and renders that keep
  \<open>isActive = false\<close> change nothing.
\<close>

theorem C8_clock_monotone_then_frozen:
  assumes "\<forall>e\<in>set es. keeps_props (props (trun (mount p) evs)) e"
    and "sorted (map tick_time (filter is_tick es))"
  shows "sorted (map fst (drop (length (emitted (trun (mount p) evs)))
           (emitted (trun (trun (mount p) evs) es)))) \<and>
    (\<not> ticking (props (trun (mount p) evs)) \<longrightarrow>
       trun (trun (mount p) evs) es = trun (mount p) evs) \<and>
    duration (tstep (Render (False, st)) (trun (mount p) evs)) = duration (trun (mount p) evs) \<and>
    cost (tstep (Render (False, st)) (trun (mount p) evs)) = cost (trun (mount p) evs) \<and>
    ((\<forall>e\<in>set fs. keeps_props (False, st) e) \<longrightarrow>
       trun (tstep (Render (False, st)) (trun (mount p) evs)) fs =
         tstep (Render (False, st)) (trun (mount p) evs))"
proof -
  let ?t = "trun (mount p) evs"
  let ?u = "tstep (Render (False, st)) ?t"
  have ok: "timers_ok ?t"
    by (rule timers_ok_run [OF timers_ok_mount])
  have oku: "timers_ok ?u"
    using ok by (rule timers_ok_step)
  have eq: "trun ?t es = trun ?t (filter is_tick es)"
    using assms(1) by (rule same_props_run)
  have 1: "sorted (map fst (drop (length (emitted ?t)) (emitted (trun ?t es))))"
    unfolding eq using ok filter_ticks assms(2) by (rule new_samples_sorted)
  have 2: "trun ?t es = ?t" if nt: "\<not> ticking (props ?t)"
  proof (rule frozen_run [OF ok])
    show "\<not> ticking (props ?t) \<or> \<not> mounted ?t"
      using nt by simp
    show "mounted ?t \<longrightarrow> (\<forall>e\<in>set es. keeps_props (props ?t) e)"
      using assms(1) by simp
  qed
  note r = render_inactive [of st ?t]
  have 3: "trun ?u fs = ?u" if "\<forall>e\<in>set fs. keeps_props (False, st) e"
  proof (rule frozen_run [OF oku])
    show "\<not> ticking (props ?u) \<or> \<not> mounted ?u"
      using r inactive_not_ticking [of st] by (cases "mounted ?u") simp_all
    show "mounted ?u \<longrightarrow> (\<forall>e\<in>set fs. keeps_props (props ?u) e)"
      using r that by simp
  qed
  from 1 2 3 r show ?thesis by blast
qed

theorem C8_clock_monotone_then_frozen_witness:
  "map fst (emitted (trun (mount (True, Some 1000))
      [Tick 1 1100, Render (True, Some 1000), Tick 1 1200])) = [3602879701896397 / 36028797018963968,
      3602879701896397 / 18014398509481984] \<and>
   sorted (map fst (emitted (trun (mount (True, Some 1000))
      [Tick 1 1100, Render (True, Some 1000), Tick 1 1200]))) \<and>
   duration (trun (mount (True, Some 1000)) [Tick 1 1100, Render (False, Some 1000)]) =
     3602879701896397 / 36028797018963968 \<and>
   cost (trun (mount (True, Some 1000)) [Tick 1 1100, Render (False, Some 1000)]) =
     7378697629483821 / 147573952589676412928 \<and>
   trun (trun (mount (True, Some 1000)) [Tick 1 1100, Render (False, Some 1000)])
     [Tick 1 1200, Tick 1 1300] =
   trun (mount (True, Some 1000)) [Tick 1 1100, Render (False, Some 1000)] \<and>
   trun (tstep (Render (False, Some 1000)) (trun (mount (True, Some 1000)) [Tick 1 1100]))
     [Tick 1 1200, Render (False, Some 1000), Tick 1 1300] =
   tstep (Render (False, Some 1000)) (trun (mount (True, Some 1000)) [Tick 1 1100])"
proof -
  let ?a = "[Tick 1 1100, Render (True, Some 1000), Tick 1 1200]"
  let ?b = "[Tick 1 1200, Tick 1 1300]"
  let ?f = "[Tick 1 1200, Render (False, Some 1000), Tick 1 1300]"
  let ?m = "mount (True, Some 1000)"
  have p0: "props (trun ?m []) = (True, Some 1000)" and e0: "emitted (trun ?m []) = []"
    by (simp_all add: mount_def tracker_defs)
  have h1: "\<forall>e\<in>set ?a. keeps_props (props (trun ?m [])) e"
    unfolding p0 by simp
  have h2: "sorted (map tick_time (filter is_tick ?a))"
    by simp
  have h3: "\<forall>e\<in>set ?b. keeps_props (props (trun ?m [Tick 1 1100, Render (False, Some 1000)])) e"
    by simp
  have h4: "sorted (map tick_time (filter is_tick ?b))"
    by simp
  have h5: "\<not> ticking (props (trun ?m [Tick 1 1100, Render (False, Some 1000)]))"
    by (simp add: mount_def tracker_defs Let_def)
  have h6: "\<forall>e\<in>set []. keeps_props (props (trun ?m [Tick 1 1100])) e"
    and h7: "sorted (map tick_time (filter is_tick []))"
    and h8: "\<forall>e\<in>set ?f. keeps_props (False, Some 1000) e"
    by simp_all
  have k: "COST_PER_SECOND = 1152921504606847 / 2305843009213693952"
    by (simp add: COST_PER_SECOND_def double_defs Let_def)
  have e1: "map fst (emitted (trun ?m ?a)) = [3602879701896397 / 36028797018963968,
      3602879701896397 / 18014398509481984]"
    by (simp add: mount_def tracker_defs double_defs Let_def)
  have e2: "duration (trun ?m [Tick 1 1100, Render (False, Some 1000)]) =
              3602879701896397 / 36028797018963968 \<and>
            cost (trun ?m [Tick 1 1100, Render (False, Some 1000)]) =
              7378697629483821 / 147573952589676412928"
    by (simp add: mount_def tracker_defs double_defs Let_def k)
  from C8_clock_monotone_then_frozen [OF h1 h2] e0
  have c1: "sorted (map fst (emitted (trun ?m ?a)))"
    by simp
  from C8_clock_monotone_then_frozen [OF h3 h4] h5
  have c2: "trun (trun ?m [Tick 1 1100, Render (False, Some 1000)]) ?b =
      trun ?m [Tick 1 1100, Render (False, Some 1000)]"
    by blast
  from C8_clock_monotone_then_frozen [OF h6 h7, where st = "Some 1000" and fs = ?f] h8
  have c3: "trun (tstep (Render (False, Some 1000)) (trun ?m [Tick 1 1100])) ?f =
      tstep (Render (False, Some 1000)) (trun ?m [Tick 1 1100])"
    by blast
  from e1 e2 c1 c2 c3 show ?thesis by blast
qed

section \<open>Where the timers are cancelled\<close>

text \<open>
  C3, the claim as stated: once an activation signal has set the latch the poll interval is
  cancelled, and every exit from a session cancels it. \<open>clearInterval(connectionPoll)\<close>
  occurs only inside the poll callback (lines 124 and 130): after the \<open>connected\<close> event
  has set the latch the interval is still set and its next callback runs, and after a
  completed \<open>endCall\<close> the interval is still set.
\<close>

theorem C3_poll_left_running:
  "connectionHandled (calls (run init [StartCall, ConnectResolved 0, ConnectedEv 0 1000]) ! 0) \<and>
   connectionPoll (calls (run init [StartCall, ConnectResolved 0, ConnectedEv 0 1000]) ! 0) \<and>
   trace (step (PollTick 0 True True 1300)
       (run init [StartCall, ConnectResolved 0, ConnectedEv 0 1000])) =
     trace (run init [StartCall, ConnectResolved 0, ConnectedEv 0 1000]) @ [PollLog 0 1] \<and>
   status (run init
     [StartCall, ConnectedEv 0 1000, ConnectResolved 0, EndCall, EndTeardownResolved]) = Idle \<and>
   connectionPoll (calls (run init
     [StartCall, ConnectedEv 0 1000, ConnectResolved 0, EndCall, EndTeardownResolved]) ! 0) \<and>
   feasible init
     [StartCall, ConnectedEv 0 1000, ConnectResolved 0, EndCall, EndTeardownResolved]"
  by (simp add: init_def handler_defs setter_defs Let_def)

lemma poll_latch_clears:
  "i < length (calls c) \<Longrightarrow> \<not> connectionHandled (calls c ! i) \<Longrightarrow>
     connectionHandled (calls (step (PollTick i a b now) c) ! i) \<Longrightarrow>
     \<not> connectionPoll (calls (step (PollTick i a b now) c) ! i)"
  by (simp add: connectionPoll_tick_def poll_body_def setter_defs Let_def split: if_splits)

lemma others_keep_poll:
  "map connectionPoll (calls (step (ConnectedEv j now) c)) = map connectionPoll (calls c)"
  "map connectionPoll (calls (step (TransportStateChanged j s now) c)) = map connectionPoll (calls c)"
  "map connectionPoll (calls (step (DisconnectedEv j) c)) = map connectionPoll (calls c)"
  "map connectionPoll (calls (step EndCall c)) = map connectionPoll (calls c)"
  "map connectionPoll (calls (step EndTeardownResolved c)) = map connectionPoll (calls c)"
  by (simp_all add: on_client_def onConnected_def onTransportStateChanged_def onDisconnected_def
      endCall_def endCall_finish_def endCall_teardown_done_def setter_defs map_update
      list_update_same_conv split: option.splits)

lemma own_tick_only:
  assumes "poll_ok_at i c" and "i < length (calls c)" and "connectionPoll (calls c ! i)"
    and "\<not> is_poll_of i e"
  shows "i < length (calls (step e c)) \<and> connectionPoll (calls (step e c) ! i)"
  using assms
  by (cases e)
     (auto simp add: poll_ok_at_def handler_defs setter_defs Let_def nth_list_update nth_append
        split: option.splits if_splits)

lemma clearing_tick:
  assumes ok: "poll_ok_at i c" and i: "i < length (calls c)" and on: "connectionPoll (calls c ! i)"
    and off: "\<not> connectionPoll (calls (step (PollTick i a b now) c) ! i)"
  shows "(\<not> connectionHandled (calls c ! i) \<and>
          connectionHandled (calls (step (PollTick i a b now) c) ! i)) \<or>
         poll_invocations i (step (PollTick i a b now) c) = 10"
proof -
  let ?d = "step (PollTick i a b now) c"
  have len: "i < length (calls ?d)"
    using i on by (simp add: connectionPoll_tick_def poll_body_def setter_defs Let_def)
  have "poll_ok_at i ?d"
    using ok by (rule poll_ok_at_step)
  with len have inv: "poll_invocations i ?d = pollAttempts (calls ?d ! i)"
    by (simp add: poll_ok_at_def)
  have lt: "pollAttempts (calls c ! i) < 10"
    using ok i on by (simp add: poll_ok_at_def maxPollAttempts_def)
  have "(\<not> connectionHandled (calls c ! i) \<and> connectionHandled (calls ?d ! i)) \<or>
        pollAttempts (calls ?d ! i) = 10"
    using i on off lt
    by (auto simp add: connectionPoll_tick_def poll_body_def setter_defs Let_def
          maxPollAttempts_def split: if_splits)
  with inv show ?thesis by simp
qed

text \<open>
  C3, amended: the poll interval of a call is cancelled from inside its own callback only:
  no other callback or continuation clears an interval that is set, and an invocation of
  the callback that clears it either sets the latch itself or is the tenth. A poll
  invocation that sets the latch clears the interval, and an interval that is still set has
  run fewer than ten times. In particular the \<open>connected\<close> and \<open>transportStateChanged\<close>
  callbacks, the disconnect callback and \<open>endCall\<close> leave every poll interval as it is.
  The interval of the clock is cancelled whenever its props are no longer both set and
  when it unmounts.
\<close>

theorem C3_where_timers_are_cancelled:
  "(i < length (calls (run init evs)) \<and> connectionPoll (calls (run init evs) ! i) \<and>
    \<not> is_poll_of i e \<longrightarrow>
      i < length (calls (step e (run init evs))) \<and>
      connectionPoll (calls (step e (run init evs)) ! i)) \<and>
   (i < length (calls (run init evs)) \<and> connectionPoll (calls (run init evs) ! i) \<and>
    \<not> connectionPoll (calls (step (PollTick i a b now) (run init evs)) ! i) \<longrightarrow>
      (\<not> connectionHandled (calls (run init evs) ! i) \<and>
       connectionHandled (calls (step (PollTick i a b now) (run init evs)) ! i)) \<or>
      poll_invocations i (step (PollTick i a b now) (run init evs)) = 10) \<and>
   (i < length (calls c) \<and> \<not> connectionHandled (calls c ! i) \<and>
    connectionHandled (calls (step (PollTick i a b now) c) ! i) \<longrightarrow>
      \<not> connectionPoll (calls (step (PollTick i a b now) c) ! i)) \<and>
   (i < length (calls (run init evs)) \<and> connectionPoll (calls (run init evs) ! i) \<longrightarrow>
      poll_invocations i (run init evs) < 10) \<and>
   map connectionPoll (calls (step (ConnectedEv j now) c)) = map connectionPoll (calls c) \<and>
   map connectionPoll (calls (step (TransportStateChanged j s now) c)) =
     map connectionPoll (calls c) \<and>
   map connectionPoll (calls (step (DisconnectedEv j) c)) = map connectionPoll (calls c) \<and>
   map connectionPoll (calls (step EndCall c)) = map connectionPoll (calls c) \<and>
   map connectionPoll (calls (step EndTeardownResolved c)) = map connectionPoll (calls c) \<and>
   (\<not> ticking (props (trun (mount p) tevs)) \<or> \<not> mounted (trun (mount p) tevs) \<longrightarrow>
      timers (trun (mount p) tevs) = [])"
proof -
  note ok = poll_ok_at_reach [of i evs]
  have 0: "i < length (calls (run init evs)) \<and> connectionPoll (calls (run init evs) ! i) \<and>
    \<not> is_poll_of i e \<longrightarrow>
      i < length (calls (step e (run init evs))) \<and>
      connectionPoll (calls (step e (run init evs)) ! i)"
    using own_tick_only [OF ok, of e] by blast
  have 00: "i < length (calls (run init evs)) \<and> connectionPoll (calls (run init evs) ! i) \<and>
    \<not> connectionPoll (calls (step (PollTick i a b now) (run init evs)) ! i) \<longrightarrow>
      (\<not> connectionHandled (calls (run init evs) ! i) \<and>
       connectionHandled (calls (step (PollTick i a b now) (run init evs)) ! i)) \<or>
      poll_invocations i (step (PollTick i a b now) (run init evs)) = 10"
    using clearing_tick [OF ok, of a b now] by blast
  have 1: "i < length (calls c) \<and> \<not> connectionHandled (calls c ! i) \<and>
    connectionHandled (calls (step (PollTick i a b now) c) ! i) \<longrightarrow>
      \<not> connectionPoll (calls (step (PollTick i a b now) c) ! i)"
    using poll_latch_clears [of i c a b now] by blast
  have 2: "i < length (calls (run init evs)) \<and> connectionPoll (calls (run init evs) ! i) \<longrightarrow>
      poll_invocations i (run init evs) < 10"
    using ok by (simp add: poll_ok_at_def maxPollAttempts_def split: if_splits)
  have 3: "\<not> ticking (props (trun (mount p) tevs)) \<or> \<not> mounted (trun (mount p) tevs) \<longrightarrow>
      timers (trun (mount p) tevs) = []"
    using idle_timers [OF timers_ok_reach, of p tevs] by blast
  from 0 00 1 2 3 show ?thesis by (simp only: others_keep_poll simp_thms)
qed

theorem C3_where_timers_are_cancelled_witness:
  "connectionPoll (calls (step (ErrorEv 0) (run init [StartCall, ConnectResolved 0])) ! 0) \<and>
   connectionPoll (calls (step StartCall (run init [StartCall, ConnectResolved 0])) ! 0) \<and>
   poll_invocations 0 (step (PollTick 0 False False 3000) (run init
     [StartCall, ConnectResolved 0,
      PollTick 0 False False 300, PollTick 0 False False 600, PollTick 0 False False 900,
      PollTick 0 False False 1200, PollTick 0 False False 1500, PollTick 0 False False 1800,
      PollTick 0 False False 2100, PollTick 0 False False 2400, PollTick 0 False False 2700])) = 10 \<and>
   connectionHandled (calls (step (PollTick 0 True True 300)
      (run init [StartCall, ConnectResolved 0])) ! 0) \<and>
   \<not> connectionPoll (calls (step (PollTick 0 True True 300)
      (run init [StartCall, ConnectResolved 0])) ! 0) \<and>
   connectionPoll (calls (run init [StartCall, ConnectResolved 0, PollTick 0 False False 300]) ! 0) \<and>
   poll_invocations 0 (run init [StartCall, ConnectResolved 0, PollTick 0 False False 300]) < 10 \<and>
   timers (trun (mount (True, Some 1000)) [Tick 1 1100]) = [(1, 1000)] \<and>
   timers (trun (mount (True, Some 1000)) [Tick 1 1100, Render (False, Some 1000)]) = [] \<and>
   timers (trun (mount (True, Some 1000)) [Tick 1 1100, Unmount]) = []"
proof -
  let ?c = "run init [StartCall, ConnectResolved 0]"
  let ?d = "run init [StartCall, ConnectResolved 0, PollTick 0 False False 300]"
  let ?n = "run init
     [StartCall, ConnectResolved 0,
      PollTick 0 False False 300, PollTick 0 False False 600, PollTick 0 False False 900,
      PollTick 0 False False 1200, PollTick 0 False False 1500, PollTick 0 False False 1800,
      PollTick 0 False False 2100, PollTick 0 False False 2400, PollTick 0 False False 2700]"
  have g1: "0 < length (calls ?c) \<and> connectionPoll (calls ?c ! 0)"
    by (simp add: init_def handler_defs setter_defs Let_def)
  have g2: "\<not> is_poll_of 0 (ErrorEv 0) \<and> \<not> is_poll_of 0 StartCall"
    by simp
  have g3: "0 < length (calls ?n) \<and> connectionPoll (calls ?n ! 0) \<and>
      \<not> connectionPoll (calls (step (PollTick 0 False False 3000) ?n) ! 0) \<and>
      \<not> connectionHandled (calls (step (PollTick 0 False False 3000) ?n) ! 0)"
    by (simp add: init_def handler_defs setter_defs Let_def)
  have h1: "0 < length (calls ?c) \<and> \<not> connectionHandled (calls ?c ! 0) \<and>
      connectionHandled (calls (step (PollTick 0 True True 300) ?c) ! 0)"
    by (simp add: init_def handler_defs setter_defs Let_def)
  have h2: "0 < length (calls ?d) \<and> connectionPoll (calls ?d ! 0)"
    by (simp add: init_def handler_defs setter_defs Let_def)
  have h3: "\<not> ticking (props (trun (mount (True, Some 1000)) [Tick 1 1100, Render (False, Some 1000)]))"
    by (simp add: mount_def tracker_defs Let_def)
  have h4: "\<not> mounted (trun (mount (True, Some 1000)) [Tick 1 1100, Unmount])"
    by (simp add: mount_def tracker_defs Let_def)
  have h5: "timers (trun (mount (True, Some 1000)) [Tick 1 1100]) = [(1, 1000)]"
    by (simp add: mount_def tracker_defs Let_def)
  from C3_where_timers_are_cancelled
    [where i = 0 and evs = "[StartCall, ConnectResolved 0]" and e = "ErrorEv 0"] g1 g2
  have b1: "connectionPoll (calls (step (ErrorEv 0) ?c) ! 0)"
    by blast
  from C3_where_timers_are_cancelled
    [where i = 0 and evs = "[StartCall, ConnectResolved 0]" and e = StartCall] g1 g2
  have b2: "connectionPoll (calls (step StartCall ?c) ! 0)"
    by blast
  from C3_where_timers_are_cancelled
    [where i = 0 and a = False and b = False and now = 3000 and evs = "[StartCall, ConnectResolved 0,
      PollTick 0 False False 300, PollTick 0 False False 600, PollTick 0 False False 900,
      PollTick 0 False False 1200, PollTick 0 False False 1500, PollTick 0 False False 1800,
      PollTick 0 False False 2100, PollTick 0 False False 2400, PollTick 0 False False 2700]"] g3
  have b3: "poll_invocations 0 (step (PollTick 0 False False 3000) ?n) = 10"
    by blast
  from C3_where_timers_are_cancelled [where i = 0 and c = ?c and a = True and b = True and now = 300] h1
  have c1: "\<not> connectionPoll (calls (step (PollTick 0 True True 300) ?c) ! 0)"
    by blast
  from C3_where_timers_are_cancelled
    [where i = 0 and evs = "[StartCall, ConnectResolved 0, PollTick 0 False False 300]"] h2
  have c2: "poll_invocations 0 ?d < 10"
    by blast
  from C3_where_timers_are_cancelled
    [where p = "(True, Some 1000)" and tevs = "[Tick 1 1100, Render (False, Some 1000)]"] h3
  have c3: "timers (trun (mount (True, Some 1000)) [Tick 1 1100, Render (False, Some 1000)]) = []"
    by blast
  from C3_where_timers_are_cancelled
    [where p = "(True, Some 1000)" and tevs = "[Tick 1 1100, Unmount]"] h4
  have c4: "timers (trun (mount (True, Some 1000)) [Tick 1 1100, Unmount]) = []"
    by blast
  from h1 h2 h5 b1 b2 b3 c1 c2 c3 c4 show ?thesis by blast
qed

end
